theory Spec2Isabelle
  imports Main "HOL-Library.Sublist"
begin

section \<open>Text primitives of the migration script\<close>

text \<open>
  The script \<^verbatim>\<open>.autoflow/migrate_to_yaml.py\<close> reads three Markdown documents, extracts
  fields with Python regular expressions and assembles nested dictionaries. A document is
  modelled as a \<^typ>\<open>string\<close>, each character a code point below 256; the character classes
  and \<^verbatim>\<open>str.strip\<close> follow Python on that range. There \<^verbatim>\<open>\s\<close> and \<^verbatim>\<open>str.isspace\<close> agree:
  the six usual blanks, the four separators 0x1C to 0x1F, the next-line character 0x85 and
  the no-break space 0xA0. \<^verbatim>\<open>\w\<close> is the letters, the digits and the underscore of ASCII and
  the 71 letters and numbers of the upper half; \<^verbatim>\<open>\d\<close> is the ten ASCII digits. Python
  integers are \<^typ>\<open>int\<close>.
\<close>

abbreviation nl :: char where
  "nl \<equiv> CHR 0x0A"

definition is_digit :: "char \<Rightarrow> bool" where
  "is_digit c = (c \<in> set ''0123456789'')"

definition is_word :: "char \<Rightarrow> bool" where
  "is_word c =
     (c \<in> set ''abcdefghijklmnopqrstuvwxyzABCDEFGHIJKLMNOPQRSTUVWXYZ0123456789_'' \<or>
      c \<in> set [CHR 0xAA, CHR 0xB2, CHR 0xB3, CHR 0xB5, CHR 0xB9, CHR 0xBA, CHR 0xBC, CHR 0xBD,
                CHR 0xBE, CHR 0xC0, CHR 0xC1, CHR 0xC2, CHR 0xC3, CHR 0xC4, CHR 0xC5, CHR 0xC6,
                CHR 0xC7, CHR 0xC8, CHR 0xC9, CHR 0xCA, CHR 0xCB, CHR 0xCC, CHR 0xCD, CHR 0xCE,
                CHR 0xCF, CHR 0xD0, CHR 0xD1, CHR 0xD2, CHR 0xD3, CHR 0xD4, CHR 0xD5, CHR 0xD6,
                CHR 0xD8, CHR 0xD9, CHR 0xDA, CHR 0xDB, CHR 0xDC, CHR 0xDD, CHR 0xDE, CHR 0xDF,
                CHR 0xE0, CHR 0xE1, CHR 0xE2, CHR 0xE3, CHR 0xE4, CHR 0xE5, CHR 0xE6, CHR 0xE7,
                CHR 0xE8, CHR 0xE9, CHR 0xEA, CHR 0xEB, CHR 0xEC, CHR 0xED, CHR 0xEE, CHR 0xEF,
                CHR 0xF0, CHR 0xF1, CHR 0xF2, CHR 0xF3, CHR 0xF4, CHR 0xF5, CHR 0xF6, CHR 0xF8,
                CHR 0xF9, CHR 0xFA, CHR 0xFB, CHR 0xFC, CHR 0xFD, CHR 0xFE, CHR 0xFF])"

definition is_space :: "char \<Rightarrow> bool" where
  "is_space c = (c \<in> set [CHR 0x09, CHR 0x0A, CHR 0x0B, CHR 0x0C, CHR 0x0D,
                              CHR 0x1C, CHR 0x1D, CHR 0x1E, CHR 0x1F, CHR 0x20,
                              CHR 0x85, CHR 0xA0])"

definition is_hex_lower :: "char \<Rightarrow> bool" where
  "is_hex_lower c = (c \<in> set ''abcdef0123456789'')"

text \<open>\<^verbatim>\<open>s.strip()\<close>: blanks removed at both ends.\<close>

definition strip :: "string \<Rightarrow> string" where
  "strip s = rev (dropWhile is_space (rev (dropWhile is_space s)))"

text \<open>\<^verbatim>\<open>s.split('\n')\<close>: always at least one piece, the last one possibly empty.\<close>

fun split_nl :: "string \<Rightarrow> string list" where
  "split_nl [] = [[]]"
| "split_nl (c # cs) =
     (if c = nl then [] # split_nl cs
      else (case split_nl cs of [] \<Rightarrow> [[c]] | l # ls \<Rightarrow> (c # l) # ls))"

text \<open>
  \<^verbatim>\<open>s.split(sep, 1)[1]\<close> when \<^verbatim>\<open>sep in s\<close>: the text after the first occurrence of
  \<open>sep\<close>, and \<open>None\<close> when \<open>sep\<close> does not occur.
\<close>

fun after_first :: "string \<Rightarrow> string \<Rightarrow> string option" where
  "after_first sep [] = (if sep = [] then Some [] else None)"
| "after_first sep (c # cs) =
     (if prefix sep (c # cs) then Some (drop (length sep) (c # cs)) else after_first sep cs)"

text \<open>\<^verbatim>\<open>int(s)\<close> on a string of decimal digits (the only strings the script converts).\<close>

definition py_int :: "string \<Rightarrow> int" where
  "py_int s = foldl (\<lambda>n c. 10 * n + (int (of_char c) - 48)) 0 s"

section \<open>Backtracking regular expressions\<close>

text \<open>
  The fragment of Python's \<^verbatim>\<open>re\<close> syntax that the script uses: literals, the classes
  \<^verbatim>\<open>\d \w \s .\<close> and \<^verbatim>\<open>[a-f0-9]\<close>, concatenation, greedy and lazy repetition, capture
  groups and positive lookahead. \<open>Dot\<close> is \<^verbatim>\<open>.\<close> without \<^verbatim>\<open>re.DOTALL\<close> (any character
  but a newline), \<open>AnyChar\<close> is \<^verbatim>\<open>.\<close> under \<^verbatim>\<open>re.DOTALL\<close>. No pattern of the script has an
  anchor, so \<^verbatim>\<open>re.MULTILINE\<close> changes nothing.
\<close>

datatype cclass = Digit | Word | Space | Dot | AnyChar | HexLower

fun in_class :: "cclass \<Rightarrow> char \<Rightarrow> bool" where
  "in_class Digit c = is_digit c"
| "in_class Word c = is_word c"
| "in_class Space c = is_space c"
| "in_class Dot c = (c \<noteq> nl)"
| "in_class AnyChar c = True"
| "in_class HexLower c = is_hex_lower c"

datatype regex =
    Lit string
  | Cls cclass
  | Seq regex regex
  | Star regex
  | StarLazy regex
  | Group nat regex
  | Ahead regex

text \<open>
  A matcher state is the text still to be read and the groups captured so far (most recent
  first). \<open>ms r st\<close> lists every state in which \<open>r\<close> can finish when started in \<open>st\<close>, in
  the order in which a backtracking matcher tries them: a greedy repetition tries one more
  iteration before it stops, a lazy one stops before it tries one more. The match that
  \<^verbatim>\<open>re\<close> reports is the first state of the list. An iteration that reads nothing is not
  repeated (every repeated expression of the script reads at least one character).
\<close>

type_synonym mstate = "string \<times> (nat \<times> string) list"

function ms :: "regex \<Rightarrow> mstate \<Rightarrow> mstate list" where
  "ms (Lit cs) (s, g) = (if prefix cs s then [(drop (length cs) s, g)] else [])"
| "ms (Cls k) (s, g) =
     (case s of [] \<Rightarrow> [] | c # cs \<Rightarrow> if in_class k c then [(cs, g)] else [])"
| "ms (Seq a b) (s, g) = concat (map (ms b) (ms a (s, g)))"
| "ms (Star r) (s, g) =
     concat (map (\<lambda>st'. if length (fst st') < length s then ms (Star r) st' else [])
                 (ms r (s, g)))
     @ [(s, g)]"
| "ms (StarLazy r) (s, g) =
     (s, g) # concat (map (\<lambda>st'. if length (fst st') < length s then ms (StarLazy r) st' else [])
                          (ms r (s, g)))"
| "ms (Group n r) (s, g) =
     map (\<lambda>(s', g'). (s', (n, take (length s - length s') s) # g')) (ms r (s, g))"
| "ms (Ahead r) (s, g) = (case ms r (s, g) of [] \<Rightarrow> [] | (s', g') # _ \<Rightarrow> [(s, g')])"
  by pat_completeness auto
termination
  by (relation "measures [\<lambda>(r, st). size r, \<lambda>(r, st). length (fst st)]") auto

text \<open>\<^verbatim>\<open>r+\<close> and \<^verbatim>\<open>r+?\<close>.\<close>

definition Plus :: "regex \<Rightarrow> regex" where
  "Plus r = Seq r (Star r)"

definition PlusLazy :: "regex \<Rightarrow> regex" where
  "PlusLazy r = Seq r (StarLazy r)"

fun seqs :: "regex list \<Rightarrow> regex" where
  "seqs [] = Lit []"
| "seqs [r] = r"
| "seqs (r # rs) = Seq r (seqs rs)"

text \<open>A match object: \<^verbatim>\<open>m.start()\<close>, \<^verbatim>\<open>m.end()\<close> and the captured groups.\<close>

record rmatch =
  m_start :: nat
  m_end :: nat
  m_groups :: "(nat \<times> string) list"

text \<open>
  \<^verbatim>\<open>m.group(n)\<close>. Every group of every pattern below takes part in every match of its
  pattern, so the default is never returned.
\<close>

definition group :: "rmatch \<Rightarrow> nat \<Rightarrow> string" where
  "group m n = (case map_of (m_groups m) n of Some t \<Rightarrow> t | None \<Rightarrow> [])"

definition match_here :: "regex \<Rightarrow> string \<Rightarrow> (nat \<times> (nat \<times> string) list) option" where
  "match_here r s =
     (case ms r (s, []) of [] \<Rightarrow> None | (s', g) # _ \<Rightarrow> Some (length s - length s', g))"

text \<open>
  The leftmost match in \<open>s\<close>, where \<open>s\<close> is the document from position \<open>pos\<close> on.
\<close>

fun search_from :: "regex \<Rightarrow> string \<Rightarrow> nat \<Rightarrow> rmatch option" where
  "search_from r [] pos =
     (case match_here r [] of
        Some (n, g) \<Rightarrow> Some \<lparr>m_start = pos, m_end = pos + n, m_groups = g\<rparr>
      | None \<Rightarrow> None)"
| "search_from r (c # cs) pos =
     (case match_here r (c # cs) of
        Some (n, g) \<Rightarrow> Some \<lparr>m_start = pos, m_end = pos + n, m_groups = g\<rparr>
      | None \<Rightarrow> search_from r cs (Suc pos))"

text \<open>\<^verbatim>\<open>re.search(r, s)\<close>.\<close>

definition re_search :: "regex \<Rightarrow> string \<Rightarrow> rmatch option" where
  "re_search r s = search_from r s 0"

text \<open>
  \<^verbatim>\<open>re.finditer(r, s)\<close>: the matches from left to right, each search resuming where the
  previous match ended. The script's patterns start with a literal and never match the
  empty string; after an empty match the scan moves on by one character.
\<close>

function finditer_from :: "regex \<Rightarrow> string \<Rightarrow> nat \<Rightarrow> rmatch list" where
  "finditer_from r s pos =
     (case search_from r s pos of
        None \<Rightarrow> []
      | Some m \<Rightarrow>
          m # (if s = [] then []
               else finditer_from r (drop (max (m_end m) (Suc pos) - pos) s)
                                     (max (m_end m) (Suc pos))))"
  by pat_completeness auto
termination
proof (relation "measure (\<lambda>(r, s, pos). length s)")
  fix r :: regex and s :: string and pos :: nat and m :: rmatch
  assume "s \<noteq> []"
  then have "0 < length s" by simp
  moreover have "0 < max (m_end m) (Suc pos) - pos" by arith
  ultimately have "length s - (max (m_end m) (Suc pos) - pos) < length s" by arith
  then show "((r, drop (max (m_end m) (Suc pos) - pos) s, max (m_end m) (Suc pos)), r, s, pos)
      \<in> measure (\<lambda>(r, s, pos). length s)" by simp
qed simp

definition finditer :: "regex \<Rightarrow> string \<Rightarrow> rmatch list" where
  "finditer r s = finditer_from r s 0"

section \<open>The sprint-plan extractor\<close>

text \<open>
  \<^verbatim>\<open>parse_sprints_md\<close> builds, for every match of the sprint header pattern, one dictionary
  with the keys \<^verbatim>\<open>id goal status duration progress deliverables tasks\<close> and, for a sprint
  whose status is \<^verbatim>\<open>COMPLETE\<close>, the key \<^verbatim>\<open>completed\<close>. A dictionary with fixed keys is a
  record; the optional key is an \<open>option\<close> field.
\<close>

record task_summary =
  ts_id :: string
  ts_status :: string
  ts_title :: string

record progress =
  pr_completed :: int
  pr_total :: int

record sprint =
  sp_id :: int
  sp_goal :: string
  sp_status :: string
  sp_duration :: string
  sp_progress :: progress
  sp_deliverables :: "string list"
  sp_tasks :: "task_summary list"
  sp_completed :: "string option"

record project_info =
  pi_name :: string
  pi_total_sprints :: int
  pi_current_sprint :: int
  pi_last_updated :: string

record sprints_data =
  sd_project :: project_info
  sd_sprints :: "sprint list"

text \<open>\<^verbatim>\<open>\*\*Project\*\*:\s*(.+)\<close> and \<^verbatim>\<open>\*\*Total Sprints\*\*:\s*(\d+)\<close>\<close>

definition project_pattern :: regex where
  "project_pattern = seqs [Lit ''**Project**:'', Star (Cls Space), Group 1 (Plus (Cls Dot))]"

definition total_sprints_pattern :: regex where
  "total_sprints_pattern =
     seqs [Lit ''**Total Sprints**:'', Star (Cls Space), Group 1 (Plus (Cls Digit))]"

text \<open>
  \<^verbatim>\<open>## Sprint (\d+):\s*(.+?)\n\n\*\*Duration\*\*:\s*(.+?)\n\*\*Status\*\*:\s*(\w+)\n\*\*Progress\*\*:\s*(\d+)/(\d+)\<close>
\<close>

definition sprint_pattern :: regex where
  "sprint_pattern =
     seqs [Lit ''## Sprint '', Group 1 (Plus (Cls Digit)), Lit '':'', Star (Cls Space),
           Group 2 (PlusLazy (Cls Dot)), Lit [nl, nl],
           Lit ''**Duration**:'', Star (Cls Space), Group 3 (PlusLazy (Cls Dot)), Lit [nl],
           Lit ''**Status**:'', Star (Cls Space), Group 4 (Plus (Cls Word)), Lit [nl],
           Lit ''**Progress**:'', Star (Cls Space), Group 5 (Plus (Cls Digit)), Lit ''/'',
           Group 6 (Plus (Cls Digit))]"

text \<open>\<^verbatim>\<open>## Sprint \d+:\<close>\<close>

definition next_sprint_pattern :: regex where
  "next_sprint_pattern = seqs [Lit ''## Sprint '', Plus (Cls Digit), Lit '':'']"

text \<open>\<^verbatim>\<open>### Deliverables\n\n((?:\d+\..*\n)+)\<close>\<close>

definition deliverables_pattern :: regex where
  "deliverables_pattern =
     seqs [Lit (''### Deliverables'' @ [nl, nl]),
           Group 1 (Plus (seqs [Plus (Cls Digit), Lit ''.'', Star (Cls Dot), Lit [nl]]))]"

text \<open>\<^verbatim>\<open>`(task-\d+)`\s*\[(\w+)\]\s*-\s*(.+)\<close>\<close>

definition sprint_task_pattern :: regex where
  "sprint_task_pattern =
     seqs [Lit ''`'', Group 1 (Seq (Lit ''task-'') (Plus (Cls Digit))), Lit ''`'',
           Star (Cls Space), Lit ''['', Group 2 (Plus (Cls Word)), Lit '']'', Star (Cls Space),
           Lit ''-'', Star (Cls Space), Group 3 (Plus (Cls Dot))]"

text \<open>
  The text of one record: from the start of its header match to the start of the next
  header (searched after the end of the match), or to the end of the document.
\<close>

definition section_of :: "regex \<Rightarrow> string \<Rightarrow> rmatch \<Rightarrow> string" where
  "section_of next_pattern doc m =
     (let section_start = m_start m;
          section_end = (case re_search next_pattern (drop (m_end m) doc) of
                           Some nxt \<Rightarrow> m_end m + m_start nxt
                         | None \<Rightarrow> length doc)
      in take (section_end - section_start) (drop section_start doc))"

text \<open>
  \<^verbatim>\<open>[line.strip()[3:].strip() for line in deliverables_text.split('\n') if line.strip()]\<close>
\<close>

definition sprint_deliverables :: "string \<Rightarrow> string list" where
  "sprint_deliverables sprint_content =
     (case re_search deliverables_pattern sprint_content of
        None \<Rightarrow> []
      | Some dm \<Rightarrow>
          map (\<lambda>line. strip (drop 3 (strip line)))
              (filter (\<lambda>line. strip line \<noteq> []) (split_nl (group dm 1))))"

definition sprint_tasks :: "string \<Rightarrow> task_summary list" where
  "sprint_tasks sprint_content =
     map (\<lambda>tm. \<lparr>ts_id = group tm 1, ts_status = group tm 2, ts_title = strip (group tm 3)\<rparr>)
         (finditer sprint_task_pattern sprint_content)"

text \<open>The body of the loop over the header matches.\<close>

definition sprint_of_match :: "string \<Rightarrow> rmatch \<Rightarrow> sprint" where
  "sprint_of_match sprints_md m =
     (let sprint_id = py_int (group m 1);
          goal = strip (group m 2);
          duration = strip (group m 3);
          status = strip (group m 4);
          completed_tasks = py_int (group m 5);
          total_tasks = py_int (group m 6);
          sprint_content = section_of next_sprint_pattern sprints_md m
      in \<lparr>sp_id = sprint_id, sp_goal = goal, sp_status = status, sp_duration = duration,
          sp_progress = \<lparr>pr_completed = completed_tasks, pr_total = total_tasks\<rparr>,
          sp_deliverables = sprint_deliverables sprint_content,
          sp_tasks = sprint_tasks sprint_content,
          sp_completed = (if status = ''COMPLETE'' then Some ''2025-10-04'' else None)\<rparr>)"

text \<open>
  \<open>parse_sprints_md sprints_md today\<close>: \<open>sprints_md\<close> is the text that
  \<^verbatim>\<open>Path('.autoflow/SPRINTS.md').read_text()\<close> returned and \<open>today\<close> the string that
  \<^verbatim>\<open>datetime.now().strftime('%Y-%m-%d')\<close> returns.
\<close>

definition parse_sprints_md :: "string \<Rightarrow> string \<Rightarrow> sprints_data" where
  "parse_sprints_md sprints_md today =
     (let project_name = (case re_search project_pattern sprints_md of
                            Some pm \<Rightarrow> group pm 1
                          | None \<Rightarrow> ''CraftyPrep - Laser Engraving Image Prep Tool'');
          total_sprints = (case re_search total_sprints_pattern sprints_md of
                             Some tm \<Rightarrow> py_int (group tm 1)
                           | None \<Rightarrow> 7);
          sprints = map (sprint_of_match sprints_md) (finditer sprint_pattern sprints_md);
          current_sprint = (case filter (\<lambda>s. sp_status s = ''ACTIVE'') sprints of
                              s # _ \<Rightarrow> sp_id s
                            | [] \<Rightarrow> 1)
      in \<lparr>sd_project = \<lparr>pi_name = project_name, pi_total_sprints = total_sprints,
                          pi_current_sprint = current_sprint, pi_last_updated = today\<rparr>,
          sd_sprints = sprints\<rparr>)"

section \<open>The active-task extractor\<close>

record acceptance_criterion =
  ac_criterion :: string
  ac_completed :: bool

record documentation_link =
  dl_title :: string
  dl_path :: string

text \<open>
  The key \<^verbatim>\<open>blockers\<close> holds a string or Python's \<^verbatim>\<open>None\<close>: \<open>Some t\<close> is the string \<open>t\<close>
  and \<open>None\<close> is \<^verbatim>\<open>None\<close>.
\<close>

record task =
  tk_id :: string
  tk_title :: string
  tk_priority :: string
  tk_status :: string
  tk_estimated :: string
  tk_description :: string
  tk_acceptance_criteria :: "acceptance_criterion list"
  tk_blockers :: "string option"
  tk_documentation :: "documentation_link list"

record sprint_summary =
  ss_id :: int
  ss_goal :: string
  ss_duration :: string
  ss_status :: string
  ss_progress :: progress
  ss_last_updated :: string

record task_data =
  td_sprint :: sprint_summary
  td_tasks :: "task list"

text \<open>The five lookups of the sprint header, each over the whole document.\<close>

definition current_sprint_pattern :: regex where
  "current_sprint_pattern =
     seqs [Lit ''**Current Sprint**:'', Star (Cls Space), Lit ''Sprint '',
           Group 1 (Plus (Cls Digit)), Star (Cls Space), Lit ''-'', Star (Cls Space),
           Group 2 (Plus (Cls Dot))]"

definition sprint_goal_pattern :: regex where
  "sprint_goal_pattern =
     seqs [Lit ''**Sprint Goal**:'', Star (Cls Space), Group 1 (Plus (Cls Dot))]"

definition duration_pattern :: regex where
  "duration_pattern = seqs [Lit ''**Duration**:'', Star (Cls Space), Group 1 (Plus (Cls Dot))]"

definition status_pattern :: regex where
  "status_pattern = seqs [Lit ''**Status**:'', Star (Cls Space), Group 1 (Plus (Cls Word))]"

definition progress_pattern :: regex where
  "progress_pattern =
     seqs [Lit ''**Progress**:'', Star (Cls Space), Group 1 (Plus (Cls Digit)), Lit ''/'',
           Group 2 (Plus (Cls Digit))]"

text \<open>
  \<^verbatim>\<open>### (Task \d+\.\d+):\s*(.+?)\n\n\*\*ID\*\*:\s*(task-\d+)\n\*\*Priority\*\*:\s*(\w+)\n\*\*Status\*\*:\s*(\w+)\n\*\*Estimated Effort\*\*:\s*(.+)\<close>
\<close>

definition task_pattern :: regex where
  "task_pattern =
     seqs [Lit ''### '',
           Group 1 (seqs [Lit ''Task '', Plus (Cls Digit), Lit ''.'', Plus (Cls Digit)]),
           Lit '':'', Star (Cls Space), Group 2 (PlusLazy (Cls Dot)), Lit [nl, nl],
           Lit ''**ID**:'', Star (Cls Space),
           Group 3 (Seq (Lit ''task-'') (Plus (Cls Digit))), Lit [nl],
           Lit ''**Priority**:'', Star (Cls Space), Group 4 (Plus (Cls Word)), Lit [nl],
           Lit ''**Status**:'', Star (Cls Space), Group 5 (Plus (Cls Word)), Lit [nl],
           Lit ''**Estimated Effort**:'', Star (Cls Space), Group 6 (Plus (Cls Dot))]"

text \<open>\<^verbatim>\<open>### Task \d+\.\d+:\<close>\<close>

definition next_task_pattern :: regex where
  "next_task_pattern =
     seqs [Lit ''### Task '', Plus (Cls Digit), Lit ''.'', Plus (Cls Digit), Lit '':'']"

text \<open>\<^verbatim>\<open>\*\*Description\*\*:\n(.+?)(?=\n\n\*\*)\<close> under \<^verbatim>\<open>re.DOTALL\<close>\<close>

definition description_pattern :: regex where
  "description_pattern =
     seqs [Lit (''**Description**:'' @ [nl]), Group 1 (PlusLazy (Cls AnyChar)),
           Ahead (Lit ([nl, nl] @ ''**''))]"

definition extract_description :: "string \<Rightarrow> string" where
  "extract_description task_section =
     (case re_search description_pattern task_section of
        Some desc_match \<Rightarrow> strip (group desc_match 1)
      | None \<Rightarrow> [])"

text \<open>\<^verbatim>\<open>\*\*Acceptance Criteria\*\*:\n((?:- \[.\] .+\n)+)\<close>\<close>

definition criteria_pattern :: regex where
  "criteria_pattern =
     seqs [Lit (''**Acceptance Criteria**:'' @ [nl]),
           Group 1 (Plus (seqs [Lit ''- ['', Cls Dot, Lit ''] '', Plus (Cls Dot), Lit [nl]]))]"

text \<open>The body of the loop over the lines of the checklist block.\<close>

definition criterion_of_line :: "string \<Rightarrow> acceptance_criterion" where
  "criterion_of_line line =
     (let checked = (CHR ''x'' \<in> set (take 6 line));
          criterion = (case after_first ''] '' line of Some t \<Rightarrow> strip t | None \<Rightarrow> line)
      in \<lparr>ac_criterion = criterion, ac_completed = checked\<rparr>)"

definition criteria_of_block :: "string \<Rightarrow> acceptance_criterion list" where
  "criteria_of_block block =
     map criterion_of_line (filter (\<lambda>line. prefix ''- ['' (strip line)) (split_nl block))"

definition extract_criteria :: "string \<Rightarrow> acceptance_criterion list" where
  "extract_criteria task_section =
     (case re_search criteria_pattern task_section of
        Some criteria_section \<Rightarrow> criteria_of_block (group criteria_section 1)
      | None \<Rightarrow> [])"

text \<open>
  \<^verbatim>\<open>\*\*Blockers\*\*:\s*(.+)\<close>; the variable \<^verbatim>\<open>blockers\<close> is the string \<^verbatim>\<open>"None"\<close> when
  the pattern is not found, and the dictionary gets \<^verbatim>\<open>None\<close> in its place.
\<close>

definition blockers_pattern :: regex where
  "blockers_pattern = seqs [Lit ''**Blockers**:'', Star (Cls Space), Group 1 (Plus (Cls Dot))]"

definition extract_blockers :: "string \<Rightarrow> string option" where
  "extract_blockers task_section =
     (let blockers = (case re_search blockers_pattern task_section of
                        Some blockers_match \<Rightarrow> strip (group blockers_match 1)
                      | None \<Rightarrow> ''None'')
      in if blockers \<noteq> ''None'' then Some blockers else None)"

text \<open>\<^verbatim>\<open>- \[(.+?)\]\((.+?)\)\<close>\<close>

definition docs_pattern :: regex where
  "docs_pattern =
     seqs [Lit ''- ['', Group 1 (PlusLazy (Cls Dot)), Lit '']('', Group 2 (PlusLazy (Cls Dot)),
           Lit '')'']"

definition extract_docs :: "string \<Rightarrow> documentation_link list" where
  "extract_docs task_section =
     map (\<lambda>doc_match. \<lparr>dl_title = group doc_match 1, dl_path = group doc_match 2\<rparr>)
         (finditer docs_pattern task_section)"

definition task_of_match :: "string \<Rightarrow> rmatch \<Rightarrow> task" where
  "task_of_match task_md m =
     (let task_title = strip (group m 2);
          task_id = group m 3;
          priority = strip (group m 4);
          status_str = strip (group m 5);
          estimated = strip (group m 6);
          task_section = section_of next_task_pattern task_md m
      in \<lparr>tk_id = task_id, tk_title = task_title, tk_priority = priority,
          tk_status = status_str, tk_estimated = estimated,
          tk_description = extract_description task_section,
          tk_acceptance_criteria = extract_criteria task_section,
          tk_blockers = extract_blockers task_section,
          tk_documentation = extract_docs task_section\<rparr>)"

text \<open>
  \<open>parse_task_md task_md now\<close>: \<open>now\<close> is the string that \<^verbatim>\<open>datetime.now().isoformat()\<close>
  returns. The sprint name (group 2 of the current-sprint lookup) is computed by the script
  and not used.
\<close>

definition parse_task_md :: "string \<Rightarrow> string \<Rightarrow> task_data" where
  "parse_task_md task_md now =
     (let sprint_id = (case re_search current_sprint_pattern task_md of
                         Some sm \<Rightarrow> py_int (group sm 1) | None \<Rightarrow> 3);
          goal = (case re_search sprint_goal_pattern task_md of
                    Some gm \<Rightarrow> strip (group gm 1) | None \<Rightarrow> []);
          duration = (case re_search duration_pattern task_md of
                        Some dm \<Rightarrow> strip (group dm 1) | None \<Rightarrow> ''TBD'');
          status = (case re_search status_pattern task_md of
                      Some sm \<Rightarrow> strip (group sm 1) | None \<Rightarrow> ''ACTIVE'');
          completed = (case re_search progress_pattern task_md of
                         Some pm \<Rightarrow> py_int (group pm 1) | None \<Rightarrow> 0);
          total = (case re_search progress_pattern task_md of
                     Some pm \<Rightarrow> py_int (group pm 2) | None \<Rightarrow> 0)
      in \<lparr>td_sprint = \<lparr>ss_id = sprint_id, ss_goal = goal, ss_duration = duration,
                         ss_status = status,
                         ss_progress = \<lparr>pr_completed = completed, pr_total = total\<rparr>,
                         ss_last_updated = now @ ''Z''\<rparr>,
          td_tasks = map (task_of_match task_md) (finditer task_pattern task_md)\<rparr>)"

section \<open>The completed-task extractor\<close>

text \<open>
  The key \<^verbatim>\<open>quality_metrics\<close> holds a dictionary that is filled key by key; it is an
  association list in insertion order. The key \<^verbatim>\<open>commit\<close> holds a string or \<^verbatim>\<open>None\<close>.
\<close>

record completed_task =
  ct_id :: string
  ct_title :: string
  ct_status :: string
  ct_completed :: string
  ct_estimated :: string
  ct_actual :: string
  ct_sprint :: string
  ct_description :: string
  ct_deliverables :: "string list"
  ct_commit :: "string option"
  ct_quality_metrics :: "(string \<times> string) list"

record completed_project =
  cp_name :: string
  cp_last_updated :: string

record completed_data =
  cd_project :: completed_project
  cd_tasks :: "completed_task list"

text \<open>
  \<^verbatim>\<open>### Task \d+\.\d+:\s*(.+?)\n\n\*\*ID\*\*:\s*(task-\d+)\n\*\*Status\*\*:\s*(\w+)\n\*\*Completed\*\*:\s*(.+?)\n\*\*Estimated\*\*:\s*(.+?)\n\*\*Actual\*\*:\s*(.+?)\n\*\*Sprint\*\*:\s*(.+)\<close>
\<close>

definition completed_task_pattern :: regex where
  "completed_task_pattern =
     seqs [Lit ''### Task '', Plus (Cls Digit), Lit ''.'', Plus (Cls Digit), Lit '':'',
           Star (Cls Space), Group 1 (PlusLazy (Cls Dot)), Lit [nl, nl],
           Lit ''**ID**:'', Star (Cls Space),
           Group 2 (Seq (Lit ''task-'') (Plus (Cls Digit))), Lit [nl],
           Lit ''**Status**:'', Star (Cls Space), Group 3 (Plus (Cls Word)), Lit [nl],
           Lit ''**Completed**:'', Star (Cls Space), Group 4 (PlusLazy (Cls Dot)), Lit [nl],
           Lit ''**Estimated**:'', Star (Cls Space), Group 5 (PlusLazy (Cls Dot)), Lit [nl],
           Lit ''**Actual**:'', Star (Cls Space), Group 6 (PlusLazy (Cls Dot)), Lit [nl],
           Lit ''**Sprint**:'', Star (Cls Space), Group 7 (Plus (Cls Dot))]"

text \<open>
  The bullet of a key deliverable is written in the script as three code points, U+201A,
  U+00FA and U+00D6. The first is the only character of the script beyond the 8-bit range;
  it is neither a blank nor a word character and is represented by the control character
  0x82, which has the same two properties. The slice \<^verbatim>\<open>[4:]\<close> of the script removes four
  characters of a line, that is the dash, the blank and the first two code points of the
  bullet.
\<close>

definition check_mark :: string where
  "check_mark = [CHR 0x82, CHR 0xFA, CHR 0xD6]"

text \<open>\<^verbatim>\<open>\*\*Key Deliverables\*\*:\n((?:- <bullet> .+\n)+)\<close>\<close>

definition key_deliverables_pattern :: regex where
  "key_deliverables_pattern =
     seqs [Lit (''**Key Deliverables**:'' @ [nl]),
           Group 1 (Plus (seqs [Lit (''- '' @ check_mark @ '' ''), Plus (Cls Dot), Lit [nl]]))]"

definition extract_key_deliverables :: "string \<Rightarrow> string list" where
  "extract_key_deliverables task_section =
     (case re_search key_deliverables_pattern task_section of
        None \<Rightarrow> []
      | Some deliv_match \<Rightarrow>
          map (\<lambda>line. strip (drop 4 (strip line)))
              (filter (\<lambda>line. strip line \<noteq> []) (split_nl (group deliv_match 1))))"

text \<open>\<^verbatim>\<open>\*\*Commit\*\*:\s*([a-f0-9]+)\<close>\<close>

definition commit_pattern :: regex where
  "commit_pattern = seqs [Lit ''**Commit**:'', Star (Cls Space), Group 1 (Plus (Cls HexLower))]"

definition extract_commit :: "string \<Rightarrow> string option" where
  "extract_commit task_section =
     (case re_search commit_pattern task_section of
        Some commit_match \<Rightarrow> Some (group commit_match 1)
      | None \<Rightarrow> None)"

text \<open>\<^verbatim>\<open>Tests passing:\s*(.+)\<close> and \<^verbatim>\<open>Code coverage:\s*(.+)\<close>\<close>

definition tests_pattern :: regex where
  "tests_pattern = seqs [Lit ''Tests passing:'', Star (Cls Space), Group 1 (Plus (Cls Dot))]"

definition coverage_pattern :: regex where
  "coverage_pattern = seqs [Lit ''Code coverage:'', Star (Cls Space), Group 1 (Plus (Cls Dot))]"

definition extract_quality_metrics :: "string \<Rightarrow> (string \<times> string) list" where
  "extract_quality_metrics task_section =
     (let tests_match = re_search tests_pattern task_section;
          coverage_match = re_search coverage_pattern task_section;
          quality_metrics = [];
          quality_metrics = (case tests_match of
                               Some tm \<Rightarrow> quality_metrics @ [(''tests_passing'', strip (group tm 1))]
                             | None \<Rightarrow> quality_metrics);
          quality_metrics = (case coverage_match of
                               Some cm \<Rightarrow> quality_metrics @ [(''code_coverage'', strip (group cm 1))]
                             | None \<Rightarrow> quality_metrics)
      in if quality_metrics \<noteq> [] then quality_metrics else [])"

definition completed_task_of_match :: "string \<Rightarrow> rmatch \<Rightarrow> completed_task" where
  "completed_task_of_match completed_md m =
     (let title = strip (group m 1);
          task_id = group m 2;
          status = strip (group m 3);
          completed_date = strip (group m 4);
          estimated = strip (group m 5);
          actual = strip (group m 6);
          sprint = strip (group m 7);
          task_section = section_of next_task_pattern completed_md m
      in \<lparr>ct_id = task_id, ct_title = title, ct_status = status, ct_completed = completed_date,
          ct_estimated = estimated, ct_actual = actual, ct_sprint = sprint,
          ct_description = extract_description task_section,
          ct_deliverables = extract_key_deliverables task_section,
          ct_commit = extract_commit task_section,
          ct_quality_metrics = extract_quality_metrics task_section\<rparr>)"

definition parse_completed_tasks_md :: "string \<Rightarrow> string \<Rightarrow> completed_data" where
  "parse_completed_tasks_md completed_md now =
     \<lparr>cd_project = \<lparr>cp_name = ''CraftyPrep - Laser Engraving Image Prep Tool'',
                       cp_last_updated = now @ ''Z''\<rparr>,
      cd_tasks = map (completed_task_of_match completed_md)
                     (finditer completed_task_pattern completed_md)\<rparr>"

section \<open>The orchestrator\<close>














section \<open>Sample documents\<close>

text \<open>
  A sprint plan with one sprint whose goal line ends in a blank, whose third deliverable is
  numbered 100 and whose task list names \<^verbatim>\<open>task-1\<close> twice.
\<close>

definition sample_sprints_md :: string where
  "sample_sprints_md =
     ''# Sprint Plan'' @ [nl, nl] @
     ''## Sprint 1: Core '' @ [nl, nl] @
     ''**Duration**: 1 week'' @ [nl] @
     ''**Status**: COMPLETE'' @ [nl] @
     ''**Progress**: 2/2'' @ [nl, nl] @
     ''### Deliverables'' @ [nl, nl] @
     ''1. Upload'' @ [nl] @
     ''10. Preview'' @ [nl] @
     ''100. Export'' @ [nl, nl] @
     ''- `task-1` [DONE] - First'' @ [nl] @
     ''- `task-1` [DONE] - Again'' @ [nl]"

text \<open>
  A plan of two sprints, the first complete and the second active. The text of the first
  sprint names a day of its own.
\<close>

definition sample_two_sprints_md :: string where
  "sample_two_sprints_md =
     ''## Sprint 1: Core'' @ [nl, nl] @
     ''**Duration**: 1 week'' @ [nl] @
     ''**Status**: COMPLETE'' @ [nl] @
     ''**Progress**: 2/2'' @ [nl, nl] @
     ''Completed on 2025-09-30.'' @ [nl, nl] @
     ''## Sprint 2: Export'' @ [nl, nl] @
     ''**Duration**: 2 weeks'' @ [nl] @
     ''**Status**: ACTIVE'' @ [nl] @
     ''**Progress**: 0/3'' @ [nl]"

text \<open>
  A second sample: two active tasks. The first has every section, with an empty blocker
  line; in the second no blank line follows the description.
\<close>

definition sample_task_md :: string where
  "sample_task_md =
     ''# Current Tasks'' @ [nl, nl] @
     ''### Task 3.1: Presets'' @ [nl, nl] @
     ''**ID**: task-020'' @ [nl] @
     ''**Priority**: HIGH'' @ [nl] @
     ''**Status**: PENDING'' @ [nl] @
     ''**Estimated Effort**: 4 hours'' @ [nl, nl] @
     ''**Description**:'' @ [nl] @
     ''Add material presets.'' @ [nl, nl] @
     ''**Acceptance Criteria**:'' @ [nl] @
     ''- [x] Export works'' @ [nl] @
     ''- [ ] Import works'' @ [nl, nl] @
     ''**Blockers**:'' @ [nl, nl] @
     ''**Documentation**:'' @ [nl] @
     ''- [Spec](docs/spec.md)'' @ [nl, nl] @
     ''### Task 3.2: Settings'' @ [nl, nl] @
     ''**ID**: task-021'' @ [nl] @
     ''**Priority**: LOW'' @ [nl] @
     ''**Status**: PENDING'' @ [nl] @
     ''**Estimated Effort**: 2 hours'' @ [nl, nl] @
     ''**Description**:'' @ [nl] @
     ''Persist the settings.'' @ [nl] @
     ''**Blockers**: None'' @ [nl]"

text \<open>A completed-task log whose only task ends with a test line that has no value.\<close>

definition sample_completed_md :: string where
  "sample_completed_md =
     ''# Completed Tasks'' @ [nl, nl] @
     ''### Task 1.1: Upload'' @ [nl, nl] @
     ''**ID**: task-001'' @ [nl] @
     ''**Status**: COMPLETE'' @ [nl] @
     ''**Completed**: 2025-10-04'' @ [nl] @
     ''**Estimated**: 4 hours'' @ [nl] @
     ''**Actual**: 3 hours'' @ [nl] @
     ''**Sprint**: Sprint 1'' @ [nl, nl] @
     ''**Description**:'' @ [nl] @
     ''Upload images.'' @ [nl, nl] @
     ''**Quality**:'' @ [nl] @
     ''- Code coverage: 85%'' @ [nl] @
     ''- Tests passing:'' @ [nl]"

section \<open>Notions of the specification\<close>

text \<open>
  The specification speaks of labeled lines. The pattern of such a line in the script is the
  label, blanks, and a captured rest of line.
\<close>

abbreviation labeled :: "string \<Rightarrow> regex" where
  "labeled label \<equiv> Seq (Lit label) (Seq (Star (Cls Space)) (Group 1 (Plus (Cls Dot))))"

text \<open>
  The description boundary of a task span: a description label that is followed, somewhere
  in the rest of the span, by a blank line and the two stars of a bold label.
\<close>

definition has_description_boundary :: "string \<Rightarrow> bool" where
  "has_description_boundary task_section =
     list_ex (\<lambda>suf. prefix (''**Description**:'' @ [nl]) suf \<and>
                    sublist ([nl, nl] @ ''**'') (drop (length (''**Description**:'' @ [nl])) suf))
             (suffixes task_section)"

text \<open>
  The text of the blocker line of a task span: what follows the first blocker label on its
  line, without the blanks around it; \<open>None\<close> when the span has no blocker label.
\<close>

definition blocker_line_text :: "string \<Rightarrow> string option" where
  "blocker_line_text task_section =
     (case after_first ''**Blockers**:'' task_section of
        None \<Rightarrow> None
      | Some t \<Rightarrow> Some (strip (takeWhile (\<lambda>c. c \<noteq> nl) t)))"

text \<open>
  A label that is followed by text: the label occurs in the span and a character other than
  a line break comes somewhere after it.
\<close>

fun followed_by_text :: "string \<Rightarrow> string \<Rightarrow> bool" where
  "followed_by_text label [] = False"
| "followed_by_text label (c # cs) =
     ((prefix label (c # cs) \<and> list_ex (\<lambda>x. x \<noteq> nl) (drop (length label) (c # cs)))
      \<or> followed_by_text label cs)"

text \<open>
  A line of a checklist block: the marker \<^verbatim>\<open>- [c] \<close> with one character \<open>c\<close> in the box,
  and a text; \<open>unlines\<close> joins lines, each with its line break.
\<close>

definition checklist_line :: "string \<Rightarrow> bool" where
  "checklist_line line =
     (prefix ''- ['' line \<and> take 2 (drop 4 line) = ''] '' \<and> 6 < length line \<and> nl \<notin> set line)"

definition unlines :: "string list \<Rightarrow> string" where
  "unlines ls = concat (map (\<lambda>l. l @ [nl]) ls)"

text \<open>The repeated part of the checklist pattern, \<^verbatim>\<open>- \[.\] .+\n\<close>.\<close>

abbreviation checklist_body :: regex where
  "checklist_body \<equiv>
     Seq (Lit ''- ['') (Seq (Cls Dot) (Seq (Lit ''] '') (Seq (Plus (Cls Dot)) (Lit [nl]))))"

text \<open>
  A sprint header, part by part: the number, the goal, the duration, the status and the two
  progress counts, with the blanks that follow each colon. \<open>header_text\<close> writes the header
  out, \<open>header_ok\<close> says what each part may consist of, and \<open>header_groups\<close> lists the
  parts under the numbers of the groups that capture them.
\<close>

record header_parts =
  hp_number :: string
  hp_blanks1 :: string
  hp_goal :: string
  hp_blanks2 :: string
  hp_duration :: string
  hp_blanks3 :: string
  hp_status :: string
  hp_blanks4 :: string
  hp_completed :: string
  hp_total :: string

definition header_text :: "header_parts \<Rightarrow> string" where
  "header_text h =
     ''## Sprint '' @ hp_number h @ '':'' @ hp_blanks1 h @ hp_goal h @ [nl, nl] @
     ''**Duration**:'' @ hp_blanks2 h @ hp_duration h @ [nl] @
     ''**Status**:'' @ hp_blanks3 h @ hp_status h @ [nl] @
     ''**Progress**:'' @ hp_blanks4 h @ hp_completed h @ ''/'' @ hp_total h"

definition header_ok :: "header_parts \<Rightarrow> bool" where
  "header_ok h =
     (hp_number h \<noteq> [] \<and> list_all is_digit (hp_number h) \<and>
      list_all is_space (hp_blanks1 h) \<and>
      hp_goal h \<noteq> [] \<and> list_all (\<lambda>c. c \<noteq> nl) (hp_goal h) \<and>
      list_all is_space (hp_blanks2 h) \<and>
      hp_duration h \<noteq> [] \<and> list_all (\<lambda>c. c \<noteq> nl) (hp_duration h) \<and>
      list_all is_space (hp_blanks3 h) \<and>
      hp_status h \<noteq> [] \<and> list_all is_word (hp_status h) \<and>
      list_all is_space (hp_blanks4 h) \<and>
      hp_completed h \<noteq> [] \<and> list_all is_digit (hp_completed h) \<and>
      hp_total h \<noteq> [] \<and> list_all is_digit (hp_total h))"

definition header_groups :: "header_parts \<Rightarrow> (nat \<times> string) list" where
  "header_groups h =
     [(6, hp_total h), (5, hp_completed h), (4, hp_status h), (3, hp_duration h),
      (2, hp_goal h), (1, hp_number h)]"

section \<open>Properties of the matcher\<close>

lemma ms_suffix: "st' \<in> set (ms r st) \<Longrightarrow> suffix (fst st') (fst st)"
proof (induction r st arbitrary: st' rule: ms.induct)
  case (1 cs s g)
  then show ?case by (auto simp: suffix_drop split: if_splits)
next
  case (2 k s g)
  then show ?case by (auto simp: suffix_def split: list.splits if_splits)
next
  case (3 a b s g)
  from "3.prems" obtain y where y: "y \<in> set (ms a (s, g))" and x: "st' \<in> set (ms b y)"
    by auto
  from "3.IH"(1) [OF y] "3.IH"(2) [OF y x] show ?case
    by (auto intro: suffix_order.trans)
next
  case (4 r s g)
  show ?case
  proof (cases "st' = (s, g)")
    case True
    then show ?thesis by simp
  next
    case False
    with "4.prems" obtain y where y: "y \<in> set (ms r (s, g))" and l: "length (fst y) < length s"
      and x: "st' \<in> set (ms (Star r) y)"
      by (auto split: if_splits)
    from "4.IH"(1) [OF y] "4.IH"(2) [OF y l x] show ?thesis
      by (auto intro: suffix_order.trans)
  qed
next
  case (5 r s g)
  show ?case
  proof (cases "st' = (s, g)")
    case True
    then show ?thesis by simp
  next
    case False
    with "5.prems" obtain y where y: "y \<in> set (ms r (s, g))" and l: "length (fst y) < length s"
      and x: "st' \<in> set (ms (StarLazy r) y)"
      by (auto split: if_splits)
    from "5.IH"(1) [OF y] "5.IH"(2) [OF y l x] show ?thesis
      by (auto intro: suffix_order.trans)
  qed
next
  case (6 n r s g)
  then show ?case by fastforce
next
  case (7 r s g)
  then show ?case by (auto split: list.splits)
qed

lemma search_from_None:
  "search_from r s pos = None \<longleftrightarrow> (\<forall>i\<le>length s. match_here r (drop i s) = None)"
proof (induction s arbitrary: pos)
  case Nil
  then show ?case by (auto split: option.splits)
next
  case (Cons c cs)
  show ?case
  proof (cases "match_here r (c # cs)")
    case None
    have "(\<forall>i\<le>length (c # cs). match_here r (drop i (c # cs)) = None)
       \<longleftrightarrow> (\<forall>i\<le>length cs. match_here r (drop i cs) = None)"
    proof
      assume a: "\<forall>i\<le>length (c # cs). match_here r (drop i (c # cs)) = None"
      show "\<forall>i\<le>length cs. match_here r (drop i cs) = None"
      proof (intro allI impI)
        fix i assume "i \<le> length cs"
        with a [rule_format, of "Suc i"] show "match_here r (drop i cs) = None" by simp
      qed
    next
      assume a: "\<forall>i\<le>length cs. match_here r (drop i cs) = None"
      show "\<forall>i\<le>length (c # cs). match_here r (drop i (c # cs)) = None"
      proof (intro allI impI)
        fix i assume i: "i \<le> length (c # cs)"
        show "match_here r (drop i (c # cs)) = None"
        proof (cases i)
          case 0
          with None show ?thesis by simp
        next
          case (Suc j)
          with i a [rule_format, of j] show ?thesis by simp
        qed
      qed
    qed
    with None Cons.IH [of "Suc pos"] show ?thesis by simp
  next
    case (Some a)
    then have "search_from r (c # cs) pos \<noteq> None" by (cases a) simp
    moreover from Some have "\<not> (\<forall>i\<le>length (c # cs). match_here r (drop i (c # cs)) = None)"
      by (auto intro: exI [of _ 0])
    ultimately show ?thesis by blast
  qed
qed

lemma search_from_first:
  "i \<le> length s \<Longrightarrow> match_here r (drop i s) = Some (n, g) \<Longrightarrow>
   (\<forall>j<i. match_here r (drop j s) = None) \<Longrightarrow>
   search_from r s pos = Some \<lparr>m_start = pos + i, m_end = pos + i + n, m_groups = g\<rparr>"
proof (induction s arbitrary: pos i)
  case Nil
  then show ?case by simp
next
  case (Cons c cs)
  show ?case
  proof (cases i)
    case 0
    with Cons.prems show ?thesis by simp
  next
    case (Suc j)
    with Cons.prems have j: "j \<le> length cs" "match_here r (drop j cs) = Some (n, g)" by simp_all
    from Cons.prems(3) Suc have none: "\<forall>k<j. match_here r (drop k cs) = None"
    proof (intro allI impI)
      fix k assume "k < j"
      with Suc Cons.prems(3) [rule_format, of "Suc k"] show "match_here r (drop k cs) = None" by simp
    qed
    from Cons.prems(3) Suc have h: "match_here r (c # cs) = None" by (auto dest: spec [of _ 0])
    from Cons.IH [OF j none, of "Suc pos"] h Suc show ?thesis by simp
  qed
qed

lemma search_from_Some:
  "search_from r s pos = Some m \<Longrightarrow>
   \<exists>i n. i \<le> length s \<and> match_here r (drop i s) = Some (n, m_groups m) \<and>
         m_start m = pos + i \<and> m_end m = pos + i + n \<and>
         (\<forall>j<i. match_here r (drop j s) = None)"
proof (induction s arbitrary: pos)
  case Nil
  then show ?case by (auto split: option.splits)
next
  case (Cons c cs)
  show ?case
  proof (cases "match_here r (c # cs)")
    case None
    with Cons.prems have "search_from r cs (Suc pos) = Some m" by simp
    from Cons.IH [OF this] obtain i n where i: "i \<le> length cs"
      "match_here r (drop i cs) = Some (n, m_groups m)"
      "m_start m = Suc pos + i" "m_end m = Suc pos + i + n"
      "\<forall>j<i. match_here r (drop j cs) = None" by blast
    have "\<forall>j<Suc i. match_here r (drop j (c # cs)) = None"
    proof (intro allI impI)
      fix j assume "j < Suc i"
      then show "match_here r (drop j (c # cs)) = None"
        using None i(5) by (cases j) auto
    qed
    with i show ?thesis
      by (intro exI [of _ "Suc i"] exI [of _ n]) simp
  next
    case (Some a)
    obtain n g where a: "a = (n, g)" by (cases a)
    with Some Cons.prems have "m = \<lparr>m_start = pos, m_end = pos + n, m_groups = g\<rparr>" by simp
    with Some a show ?thesis
      by (intro exI [of _ 0] exI [of _ n]) simp
  qed
qed

lemma ms_Seq_iff:
  "x \<in> set (ms (Seq a b) st) \<longleftrightarrow> (\<exists>y\<in>set (ms a st). x \<in> set (ms b y))"
  by (cases st) auto

lemma ms_Lit_iff:
  "x \<in> set (ms (Lit cs) st) \<longleftrightarrow> prefix cs (fst st) \<and> x = (drop (length cs) (fst st), snd st)"
  by (cases st) auto

lemma ms_Star_Cls_Nil: "ms (Star (Cls k)) ([], g) = [([], g)]"
  by simp

lemma ms_Star_Cls_Cons:
  "ms (Star (Cls k)) (c # cs, g) =
     (if in_class k c then ms (Star (Cls k)) (cs, g) @ [(c # cs, g)] else [(c # cs, g)])"
  by simp

lemma ms_StarLazy_Cls_Nil: "ms (StarLazy (Cls k)) ([], g) = [([], g)]"
  by simp

lemma ms_StarLazy_Cls_Cons:
  "ms (StarLazy (Cls k)) (c # cs, g) =
     (c # cs, g) # (if in_class k c then ms (StarLazy (Cls k)) (cs, g) else [])"
  by simp

declare ms.simps(4) [simp del] ms.simps(5) [simp del]

declare ms_Star_Cls_Nil [simp] ms_Star_Cls_Cons [simp]
  ms_StarLazy_Cls_Nil [simp] ms_StarLazy_Cls_Cons [simp]

text \<open>The results of a repeated class: the states after \<open>n\<close> characters of the run.\<close>

lemma ms_Star_Cls_set:
  "set (ms (Star (Cls k)) (s, g)) =
     (\<lambda>n. (drop n s, g)) ` {n. n \<le> length (takeWhile (in_class k) s)}"
proof (induction s)
  case Nil
  then show ?case by simp
next
  case (Cons c cs)
  show ?case
  proof (cases "in_class k c")
    case False
    then show ?thesis by simp
  next
    case True
    have "{n. n \<le> Suc (length (takeWhile (in_class k) cs))}
        = insert 0 (Suc ` {n. n \<le> length (takeWhile (in_class k) cs)})"
      by (auto simp: image_iff) (metis Suc_le_mono not0_implies_Suc)
    with True Cons.IH show ?thesis
      by (simp only: ms_Star_Cls_Cons if_True set_append takeWhile.simps list.size image_insert image_image)
         (auto simp: image_iff)
  qed
qed

lemma ms_Star_Cls_hd:
  "ms (Star (Cls k)) (s, g) = (dropWhile (in_class k) s, g) # tl (ms (Star (Cls k)) (s, g))"
proof (induction s)
  case Nil
  then show ?case by simp
next
  case (Cons c cs)
  show ?case
  proof (cases "in_class k c")
    case False
    then show ?thesis by simp
  next
    case True
    from Cons.IH have "ms (Star (Cls k)) (cs, g) \<noteq> []" by (metis list.discI)
    with True Cons.IH show ?thesis
      by (simp only: ms_Star_Cls_Cons if_True dropWhile.simps) (metis append_Cons list.sel(3) tl_append2)
  qed
qed


lemma ms_Star_Cls_not_Nil: "ms (Star (Cls k)) (s, g) \<noteq> []"
  by (cases s) (simp_all add: ms_Star_Cls_Nil ms_Star_Cls_Cons)

lemma ms_Plus_Cls:
  "ms (Plus (Cls k)) (s, g) =
     (case s of [] \<Rightarrow> [] | c # cs \<Rightarrow> if in_class k c then ms (Star (Cls k)) (cs, g) else [])"
  by (simp add: Plus_def split: list.splits)

lemma ms_Group_Plus_Cls_Nil_iff:
  "ms (Group n (Plus (Cls k))) (s, g) \<noteq> [] \<longleftrightarrow> s \<noteq> [] \<and> in_class k (hd s)"
  by (cases s) (simp_all add: ms_Plus_Cls ms_Star_Cls_not_Nil)

lemma takeWhile_length_mono:
  "(\<And>x. P x \<Longrightarrow> Q x) \<Longrightarrow> length (takeWhile P xs) \<le> length (takeWhile Q xs)"
  by (induction xs) auto

lemma blank_run_reaches_text:
  "(\<exists>n\<le>length (takeWhile is_space s). drop n s \<noteq> [] \<and> hd (drop n s) \<noteq> nl)
     \<longleftrightarrow> (\<exists>c\<in>set s. c \<noteq> nl)"
proof
  assume "\<exists>n\<le>length (takeWhile is_space s). drop n s \<noteq> [] \<and> hd (drop n s) \<noteq> nl"
  then obtain n where n: "drop n s \<noteq> []" "hd (drop n s) \<noteq> nl" by blast
  then have "hd (drop n s) \<in> set (drop n s)" by simp
  then have "hd (drop n s) \<in> set s" by (rule in_set_dropD)
  with n show "\<exists>c\<in>set s. c \<noteq> nl" by blast
next
  assume ex: "\<exists>c\<in>set s. c \<noteq> nl"
  define m where "m = length (takeWhile (\<lambda>c. c = nl) s)"
  have "m \<noteq> length s"
  proof
    assume "m = length s"
    moreover have "takeWhile (\<lambda>c. c = nl) s = take m s"
      unfolding m_def by (rule takeWhile_eq_take)
    ultimately have "takeWhile (\<lambda>c. c = nl) s = s" by simp
    then have "\<forall>c\<in>set s. c = nl" by (simp only: takeWhile_eq_all_conv)
    with ex show False by blast
  qed
  moreover have "m \<le> length s" unfolding m_def by (rule length_takeWhile_le)
  ultimately have lt: "m < length s" by simp
  then have "s ! m \<noteq> nl" unfolding m_def by (rule nth_length_takeWhile)
  moreover from lt have "drop m s \<noteq> []" by simp
  moreover from lt have "hd (drop m s) = s ! m" by (simp add: hd_drop_conv_nth)
  moreover have "m \<le> length (takeWhile is_space s)"
    unfolding m_def by (rule takeWhile_length_mono) (simp add: is_space_def)
  ultimately show "\<exists>n\<le>length (takeWhile is_space s). drop n s \<noteq> [] \<and> hd (drop n s) \<noteq> nl"
    by (intro exI [of _ m]) simp
qed

lemma in_class_Space: "in_class Space = is_space"
  by (rule ext) simp

lemma labeled_match_iff:
  "ms (Seq (Lit label) (Seq (Star (Cls Space)) (Group n (Plus (Cls Dot))))) (s, g) \<noteq> []
     \<longleftrightarrow> prefix label s \<and> (\<exists>c\<in>set (drop (length label) s). c \<noteq> nl)"
proof (cases "prefix label s")
  case False
  then show ?thesis by simp
next
  case True
  define t where "t = drop (length label) s"
  have "ms (Seq (Star (Cls Space)) (Group n (Plus (Cls Dot)))) (t, g) \<noteq> []
      \<longleftrightarrow> (\<exists>y\<in>set (ms (Star (Cls Space)) (t, g)). ms (Group n (Plus (Cls Dot))) y \<noteq> [])"
    by auto
  also have "\<dots> \<longleftrightarrow> (\<exists>k\<le>length (takeWhile is_space t). ms (Group n (Plus (Cls Dot))) (drop k t, g) \<noteq> [])"
    by (auto simp: ms_Star_Cls_set in_class_Space)
  also have "\<dots> \<longleftrightarrow> (\<exists>k\<le>length (takeWhile is_space t). drop k t \<noteq> [] \<and> hd (drop k t) \<noteq> nl)"
    by (simp only: ms_Group_Plus_Cls_Nil_iff in_class.simps)
  also have "\<dots> \<longleftrightarrow> (\<exists>c\<in>set t. c \<noteq> nl)" by (rule blank_run_reaches_text)
  finally show ?thesis using True by (simp add: t_def)
qed

lemma match_here_None_iff: "match_here r s = None \<longleftrightarrow> ms r (s, []) = []"
  by (cases "ms r (s, [])") (auto simp: match_here_def)

lemma re_search_None_iff:
  "re_search r s = None \<longleftrightarrow> (\<forall>i\<le>length s. ms r (drop i s, []) = [])"
  by (simp add: re_search_def search_from_None match_here_None_iff)

lemma ms_Ahead_Lit_iff:
  "x \<in> set (ms (Ahead (Lit b)) st) \<longleftrightarrow> prefix b (fst st) \<and> x = st"
  by (cases st) auto

lemma description_match_needs_boundary:
  assumes "ms description_pattern (s, g) \<noteq> []"
  shows "prefix (''**Description**:'' @ [nl]) s \<and>
         sublist ([nl, nl] @ ''**'') (drop (length (''**Description**:'' @ [nl])) s)"
proof -
  let ?L = "''**Description**:'' @ [nl]" and ?B = "[nl, nl] @ ''**''"
  from assms obtain x where "x \<in> set (ms description_pattern (s, g))"
    by (cases "ms description_pattern (s, g)") auto
  then have x: "x \<in> set (ms (Seq (Lit ?L) (Seq (Group 1 (PlusLazy (Cls AnyChar))) (Ahead (Lit ?B)))) (s, g))"
    by (simp only: description_pattern_def seqs.simps)
  then obtain y where y: "y \<in> set (ms (Lit ?L) (s, g))"
    and x2: "x \<in> set (ms (Seq (Group 1 (PlusLazy (Cls AnyChar))) (Ahead (Lit ?B))) y)"
    unfolding ms_Seq_iff by blast
  from y have p: "prefix ?L s" and yv: "y = (drop (length ?L) s, g)"
    unfolding ms_Lit_iff by simp_all
  from x2 obtain z where z: "z \<in> set (ms (Group 1 (PlusLazy (Cls AnyChar))) y)"
    and x3: "x \<in> set (ms (Ahead (Lit ?B)) z)"
    unfolding ms_Seq_iff by blast
  from ms_suffix [OF z] yv have "suffix (fst z) (drop (length ?L) s)" by simp
  moreover from x3 have "prefix ?B (fst z)" unfolding ms_Ahead_Lit_iff by simp
  ultimately have "sublist ?B (drop (length ?L) s)"
    unfolding sublist_altdef' by blast
  with p show ?thesis by blast
qed

lemma in_class_Dot: "in_class Dot = (\<lambda>c. c \<noteq> nl)"
  by (rule ext) simp

lemma concat_map_hd:
  "xs = x # xs' \<Longrightarrow> f x = y # ys \<Longrightarrow> \<exists>zs. concat (map f xs) = y # zs"
  by simp

lemma takeWhile_dropWhile_length:
  "length xs - length (dropWhile P xs) = length (takeWhile P xs)"
proof -
  have "length (takeWhile P xs) + length (dropWhile P xs) = length xs"
    by (simp only: length_append [symmetric] takeWhile_dropWhile_id)
  then show ?thesis by arith
qed

text \<open>The first result of a captured greedy run of a class.\<close>

lemma ms_Group_Plus_Cls_first:
  assumes "s \<noteq> []" "in_class k (hd s)"
  shows "\<exists>zs. ms (Group n (Plus (Cls k))) (s, g) =
           (dropWhile (in_class k) s, (n, takeWhile (in_class k) s) # g) # zs"
proof -
  from assms obtain c cs where s: "s = c # cs" and c: "in_class k c" by (cases s) auto
  have "ms (Plus (Cls k)) (s, g) = ms (Star (Cls k)) (cs, g)"
    using s c by (simp add: ms_Plus_Cls)
  also have "\<dots> = (dropWhile (in_class k) cs, g) # tl (ms (Star (Cls k)) (cs, g))"
    by (rule ms_Star_Cls_hd)
  finally have p: "ms (Plus (Cls k)) (s, g) =
      (dropWhile (in_class k) cs, g) # tl (ms (Star (Cls k)) (cs, g))" .
  have "take (length s - length (dropWhile (in_class k) cs)) s = takeWhile (in_class k) s"
  proof -
    have "length s - length (dropWhile (in_class k) cs) = length (takeWhile (in_class k) s)"
      using s c takeWhile_dropWhile_length [of cs "in_class k"]
      by (simp add: Suc_diff_le length_dropWhile_le)
    then show ?thesis by (simp add: takeWhile_eq_take [symmetric])
  qed
  with p s c show ?thesis by simp
qed

text \<open>The match of a labeled line at the start of the text.\<close>

lemma labeled_first:
  assumes "prefix label s"
      and "dropWhile is_space (drop (length label) s) \<noteq> []"
  shows "\<exists>n. match_here (Seq (Lit label) (Seq (Star (Cls Space)) (Group 1 (Plus (Cls Dot))))) s =
           Some (n, [(1, takeWhile (\<lambda>c. c \<noteq> nl) (dropWhile is_space (drop (length label) s)))])"
proof -
  define t where "t = drop (length label) s"
  define u where "u = dropWhile is_space t"
  from assms(2) have u: "u \<noteq> []" by (simp add: u_def t_def)
  then have "\<not> is_space (hd u)" unfolding u_def by (rule hd_dropWhile)
  then have hd: "in_class Dot (hd u)" by (auto simp: is_space_def)
  from ms_Group_Plus_Cls_first [OF u hd, of 1 "[]"] obtain zs where
    g: "ms (Group 1 (Plus (Cls Dot))) (u, []) =
          (dropWhile (in_class Dot) u, [(1, takeWhile (in_class Dot) u)]) # zs" by blast
  have st: "ms (Star (Cls Space)) (t, []) = (u, []) # tl (ms (Star (Cls Space)) (t, []))"
    using ms_Star_Cls_hd [of Space t "[]"] by (simp add: u_def in_class_Space)
  have "ms (Seq (Star (Cls Space)) (Group 1 (Plus (Cls Dot)))) (t, []) =
      concat (map (ms (Group 1 (Plus (Cls Dot)))) (ms (Star (Cls Space)) (t, [])))" by simp
  with concat_map_hd [where f = "ms (Group 1 (Plus (Cls Dot)))", OF st g] obtain zs' where
    "ms (Seq (Star (Cls Space)) (Group 1 (Plus (Cls Dot)))) (t, []) =
       (dropWhile (in_class Dot) u, [(1, takeWhile (in_class Dot) u)]) # zs'" by auto
  moreover have "ms (Seq (Lit label) (Seq (Star (Cls Space)) (Group 1 (Plus (Cls Dot))))) (s, [])
     = ms (Seq (Star (Cls Space)) (Group 1 (Plus (Cls Dot)))) (t, [])"
    using assms(1) by (simp add: t_def)
  ultimately show ?thesis
    by (simp add: match_here_def u_def t_def in_class_Dot)
qed



lemma labeled_match_here_None:
  "match_here (labeled label) s = None \<longleftrightarrow>
     \<not> (prefix label s \<and> list_ex (\<lambda>x. x \<noteq> nl) (drop (length label) s))"
  using labeled_match_iff [of label 1 s "[]"]
  by (simp only: match_here_None_iff list_ex_iff) blast

lemma search_labeled_iff:
  "search_from (labeled label) s pos \<noteq> None \<longleftrightarrow> followed_by_text label s"
proof (induction s arbitrary: pos)
  case Nil
  have "match_here (labeled label) [] = None"
    unfolding labeled_match_here_None by simp
  then show ?case by simp
next
  case (Cons c cs)
  show ?case
  proof (cases "match_here (labeled label) (c # cs)")
    case None
    then have "\<not> (prefix label (c # cs) \<and> list_ex (\<lambda>x. x \<noteq> nl) (drop (length label) (c # cs)))"
      unfolding labeled_match_here_None .
    with None Cons.IH [of "Suc pos"] show ?thesis by auto
  next
    case (Some a)
    then have "\<not> match_here (labeled label) (c # cs) = None" by simp
    then have "prefix label (c # cs) \<and> list_ex (\<lambda>x. x \<noteq> nl) (drop (length label) (c # cs))"
      unfolding labeled_match_here_None by blast
    moreover from Some have "search_from (labeled label) (c # cs) pos \<noteq> None"
      by (cases a) simp
    ultimately show ?thesis by simp
  qed
qed

lemma strip_dropWhile: "strip (dropWhile is_space s) = strip s"
  by (simp add: strip_def)

lemma dropWhile_all_iff: "(\<forall>x\<in>set (dropWhile P s). P x) \<longleftrightarrow> (\<forall>x\<in>set s. P x)"
proof
  assume a: "\<forall>x\<in>set (dropWhile P s). P x"
  have "dropWhile P s = []"
  proof (rule ccontr)
    assume ne: "dropWhile P s \<noteq> []"
    then have "\<not> P (hd (dropWhile P s))" by (rule hd_dropWhile)
    moreover from ne have "hd (dropWhile P s) \<in> set (dropWhile P s)" by simp
    ultimately show False using a by blast
  qed
  then show "\<forall>x\<in>set s. P x" by (simp add: dropWhile_eq_Nil_conv)
next
  assume "\<forall>x\<in>set s. P x"
  then show "\<forall>x\<in>set (dropWhile P s). P x" by (auto dest: set_dropWhileD)
qed

lemma strip_Nil_iff: "strip s = [] \<longleftrightarrow> (\<forall>c\<in>set s. is_space c)"
  by (simp add: strip_def dropWhile_all_iff)

lemma line_after_blanks:
  assumes "strip (takeWhile (\<lambda>c. c \<noteq> nl) t) \<noteq> []"
  shows "dropWhile is_space t \<noteq> []"
    and "strip (takeWhile (\<lambda>c. c \<noteq> nl) (dropWhile is_space t)) = strip (takeWhile (\<lambda>c. c \<noteq> nl) t)"
proof -
  define line where "line = takeWhile (\<lambda>c. c \<noteq> nl) t"
  define rest where "rest = dropWhile (\<lambda>c. c \<noteq> nl) t"
  have t: "t = line @ rest" by (simp add: line_def rest_def)
  from assms obtain x where x: "x \<in> set line" "\<not> is_space x"
    unfolding strip_Nil_iff line_def by blast
  then have dw: "dropWhile is_space (line @ rest) = dropWhile is_space line @ rest"
    by (intro dropWhile_append1)
  from x have ne: "dropWhile is_space line \<noteq> []"
    by (auto simp: dropWhile_eq_Nil_conv)
  with dw t show "dropWhile is_space t \<noteq> []" by simp
  have all: "\<forall>c\<in>set (dropWhile is_space line). c \<noteq> nl"
    using set_dropWhileD [of _ is_space line] set_takeWhileD [of _ "\<lambda>c. c \<noteq> nl" t]
    unfolding line_def by blast
  have r: "rest = [] \<or> hd rest = nl"
    unfolding rest_def using hd_dropWhile [of "\<lambda>c. c \<noteq> nl" t] by auto
  have "takeWhile (\<lambda>c. c \<noteq> nl) (dropWhile is_space line @ rest) = dropWhile is_space line"
  proof (cases rest)
    case Nil
    with all show ?thesis by (simp add: takeWhile_eq_all_conv)
  next
    case (Cons a as)
    with r have "a = nl" by simp
    with Cons all show ?thesis by (simp add: takeWhile_tail)
  qed
  with dw t have "takeWhile (\<lambda>c. c \<noteq> nl) (dropWhile is_space t) = dropWhile is_space line"
    by simp
  then show "strip (takeWhile (\<lambda>c. c \<noteq> nl) (dropWhile is_space t)) = strip (takeWhile (\<lambda>c. c \<noteq> nl) t)"
    by (simp add: strip_dropWhile line_def)
qed

lemma search_labeled_line:
  assumes "label \<noteq> []"
  shows "after_first label s = None \<Longrightarrow> search_from (labeled label) s pos = None"
    and "after_first label s = Some t \<Longrightarrow> strip (takeWhile (\<lambda>c. c \<noteq> nl) t) \<noteq> [] \<Longrightarrow>
         \<exists>m. search_from (labeled label) s pos = Some m \<and>
             strip (group m 1) = strip (takeWhile (\<lambda>c. c \<noteq> nl) t)"
proof (induction s arbitrary: pos)
  case Nil
  {
    case 1
    have "match_here (labeled label) [] = None" unfolding labeled_match_here_None by simp
    then show ?case by simp
  next
    case 2
    with assms show ?case by simp
  }
next
  case (Cons c cs)
  {
    case 1
    then have np: "\<not> prefix label (c # cs)" and a: "after_first label cs = None"
      by (simp_all split: if_splits)
    from np have "match_here (labeled label) (c # cs) = None"
      unfolding labeled_match_here_None by simp
    with Cons.IH(1) [OF a, of "Suc pos"] show ?case by simp
  next
    case 2
    show ?case
    proof (cases "prefix label (c # cs)")
      case True
      with 2 have t: "t = drop (length label) (c # cs)" by simp
      from line_after_blanks [OF 2(2)] t
      have ne: "dropWhile is_space (drop (length label) (c # cs)) \<noteq> []"
        and eq: "strip (takeWhile (\<lambda>c. c \<noteq> nl) (dropWhile is_space (drop (length label) (c # cs))))
                 = strip (takeWhile (\<lambda>c. c \<noteq> nl) t)" by simp_all
      from labeled_first [OF True ne] obtain n where
        "match_here (labeled label) (c # cs) =
           Some (n, [(1, takeWhile (\<lambda>c. c \<noteq> nl) (dropWhile is_space (drop (length label) (c # cs))))])"
        by blast
      with eq show ?thesis by (simp add: group_def)
    next
      case False
      with 2 have a: "after_first label cs = Some t" by simp
      from False have "match_here (labeled label) (c # cs) = None"
        unfolding labeled_match_here_None by simp
      with Cons.IH(2) [OF a 2(2), of "Suc pos"] show ?thesis by simp
    qed
  }
qed

lemma ms_Cls_iff:
  "x \<in> set (ms (Cls k) st) \<longleftrightarrow>
     fst st \<noteq> [] \<and> in_class k (hd (fst st)) \<and> x = (tl (fst st), snd st)"
  by (cases st; cases "fst st") auto

lemma ms_Plus_Cls_sound:
  assumes "x \<in> set (ms (Plus (Cls k)) st)"
  shows "\<exists>w. w \<noteq> [] \<and> (\<forall>c\<in>set w. in_class k c) \<and> fst st = w @ fst x \<and> snd x = snd st"
proof -
  obtain s g where st: "st = (s, g)" by (cases st)
  with assms obtain c cs where s: "s = c # cs" and c: "in_class k c"
    and x: "x \<in> set (ms (Star (Cls k)) (cs, g))"
    by (auto simp: ms_Plus_Cls split: list.splits if_splits)
  from x obtain n where n: "n \<le> length (takeWhile (in_class k) cs)" and xv: "x = (drop n cs, g)"
    unfolding ms_Star_Cls_set by blast
  have "set (take n cs) \<subseteq> set (takeWhile (in_class k) cs)"
  proof -
    have "take n (takeWhile (in_class k) cs) = take n cs"
      using n by (metis takeWhile_eq_take take_take min.absorb1)
    then show ?thesis by (metis set_take_subset)
  qed
  then have "\<forall>d\<in>set (take n cs). in_class k d" by (auto dest: set_takeWhileD)
  with c s st xv show ?thesis
    by (intro exI [of _ "c # take n cs"]) simp
qed


lemma ms_Group_iff:
  "x \<in> set (ms (Group n r) st) \<longleftrightarrow>
     (\<exists>y\<in>set (ms r st). x = (fst y, (n, take (length (fst st) - length (fst y)) (fst st)) # snd y))"
  by (cases st) (auto simp: image_iff case_prod_beta)

lemma re_search_Some_state:
  assumes "re_search r s = Some m"
  shows "\<exists>i\<le>length s. \<exists>x\<in>set (ms r (drop i s, [])). m_groups m = snd x"
proof -
  from search_from_Some [OF assms [unfolded re_search_def]] obtain i n where
    i: "i \<le> length s" and mh: "match_here r (drop i s) = Some (n, m_groups m)" by blast
  from mh obtain s' zs where "ms r (drop i s, []) = (s', m_groups m) # zs"
    by (auto simp: match_here_def split: list.splits)
  then have "(s', m_groups m) \<in> set (ms r (drop i s, []))" by simp
  with i show ?thesis by force
qed

lemma ms_Star_Cls_sound:
  assumes "x \<in> set (ms (Star (Cls k)) st)"
  shows "\<exists>w. list_all (in_class k) w \<and> fst st = w @ fst x \<and> snd x = snd st"
proof -
  obtain s g where st: "st = (s, g)" by (cases st)
  from assms have "x \<in> set (ms (Star (Cls k)) (s, g))" unfolding st .
  then obtain n where n: "n \<le> length (takeWhile (in_class k) s)" and xv: "x = (drop n s, g)"
    unfolding ms_Star_Cls_set by blast
  have "take n (takeWhile (in_class k) s) = take n (take (length (takeWhile (in_class k) s)) s)"
    by (simp only: takeWhile_eq_take [symmetric])
  also have "\<dots> = take n s" using n by (simp only: take_take min.absorb1)
  finally have tk: "take n s = take n (takeWhile (in_class k) s)" by (rule sym)
  have a: "\<forall>c\<in>set (takeWhile (in_class k) s). in_class k c"
    using set_takeWhileD [of _ "in_class k" s] by blast
  have b: "set (take n (takeWhile (in_class k) s)) \<subseteq> set (takeWhile (in_class k) s)"
    by (rule set_take_subset)
  from a b have "list_all (in_class k) (take n s)" unfolding tk list_all_iff by blast
  moreover have "s = take n s @ drop n s" by simp
  ultimately show ?thesis unfolding st xv by (intro exI [of _ "take n s"]) simp
qed

lemma ms_StarLazy_Cls_set:
  "set (ms (StarLazy (Cls k)) (s, g)) = set (ms (Star (Cls k)) (s, g))"
  by (induction s) auto

lemma ms_Plus_Cls_run:
  assumes "x \<in> set (ms (Plus (Cls k)) st)"
  shows "\<exists>w. (w \<noteq> [] \<and> list_all (in_class k) w) \<and> fst st = w @ fst x \<and> snd x = snd st"
proof -
  from ms_Plus_Cls_sound [OF assms] obtain w where
    "w \<noteq> []" "\<forall>c\<in>set w. in_class k c" "fst st = w @ fst x" "snd x = snd st" by blast
  then show ?thesis unfolding list_all_iff by blast
qed

lemma ms_PlusLazy_Cls_run:
  assumes "x \<in> set (ms (PlusLazy (Cls k)) st)"
  shows "\<exists>w. (w \<noteq> [] \<and> list_all (in_class k) w) \<and> fst st = w @ fst x \<and> snd x = snd st"
proof -
  from assms obtain y where y: "y \<in> set (ms (Cls k) st)"
    and x: "x \<in> set (ms (StarLazy (Cls k)) y)"
    unfolding PlusLazy_def ms_Seq_iff by blast
  from y have c: "fst st \<noteq> []" "in_class k (hd (fst st))" "y = (tl (fst st), snd st)"
    unfolding ms_Cls_iff by blast+
  from x have "x \<in> set (ms (Star (Cls k)) (tl (fst st), snd st))"
    unfolding c(3) ms_StarLazy_Cls_set .
  from ms_Star_Cls_sound [OF this] obtain w where
    w: "list_all (in_class k) w" "tl (fst st) = w @ fst x" "snd x = snd st" by auto
  from c(1) have "fst st = hd (fst st) # tl (fst st)" by simp
  with w(2) have "fst st = (hd (fst st) # w) @ fst x" by simp
  moreover from c(2) w(1) have "list_all (in_class k) (hd (fst st) # w)" by simp
  ultimately show ?thesis using w(3) by blast
qed

lemma ms_Group_run:
  assumes "x \<in> set (ms (Group n r) st)"
    and "\<And>y. y \<in> set (ms r st) \<Longrightarrow> \<exists>w. P w \<and> fst st = w @ fst y \<and> snd y = snd st"
  shows "\<exists>w. P w \<and> fst st = w @ fst x \<and> snd x = (n, w) # snd st"
proof -
  from assms(1) obtain y where y: "y \<in> set (ms r st)"
    and xv: "x = (fst y, (n, take (length (fst st) - length (fst y)) (fst st)) # snd y)"
    unfolding ms_Group_iff by blast
  from assms(2) [OF y] obtain w where w: "P w" "fst st = w @ fst y" "snd y = snd st" by blast
  then have "take (length (fst st) - length (fst y)) (fst st) = w" by simp
  with xv w show ?thesis by (intro exI [of _ w]) simp
qed

lemma Seq_LitE:
  assumes "x \<in> set (ms (Seq (Lit l) r) st)"
  obtains rest where "fst st = l @ rest" "x \<in> set (ms r (rest, snd st))"
proof -
  from assms obtain y where "y \<in> set (ms (Lit l) st)" "x \<in> set (ms r y)"
    unfolding ms_Seq_iff by blast
  then have "prefix l (fst st)" "x \<in> set (ms r (drop (length l) (fst st), snd st))"
    unfolding ms_Lit_iff by simp_all
  then show thesis using that [of "drop (length l) (fst st)"] by (auto simp: prefix_def)
qed

lemma Seq_StarE:
  assumes "x \<in> set (ms (Seq (Star (Cls k)) r) st)"
  obtains w rest where "fst st = w @ rest" "list_all (in_class k) w"
    "x \<in> set (ms r (rest, snd st))"
proof -
  from assms obtain y where y: "y \<in> set (ms (Star (Cls k)) st)" and x: "x \<in> set (ms r y)"
    unfolding ms_Seq_iff by blast
  from ms_Star_Cls_sound [OF y] obtain w where
    w: "list_all (in_class k) w" "fst st = w @ fst y" "snd y = snd st" by blast
  from x w(3) have "x \<in> set (ms r (fst y, snd st))" by (cases y) simp
  with w that show thesis by blast
qed

lemma Seq_GroupE:
  assumes "x \<in> set (ms (Seq (Group n e) r) st)"
    and "\<And>y. y \<in> set (ms e st) \<Longrightarrow> \<exists>w. P w \<and> fst st = w @ fst y \<and> snd y = snd st"
  obtains w rest where "fst st = w @ rest" "P w" "x \<in> set (ms r (rest, (n, w) # snd st))"
proof -
  from assms(1) obtain y where y: "y \<in> set (ms (Group n e) st)" and x: "x \<in> set (ms r y)"
    unfolding ms_Seq_iff by blast
  from ms_Group_run [OF y assms(2)] obtain w where
    w: "P w" "fst st = w @ fst y" "snd y = (n, w) # snd st" by blast
  from x w(3) have "x \<in> set (ms r (fst y, (n, w) # snd st))" by (cases y) simp
  with w that show thesis by blast
qed

lemma in_class_Digit: "in_class Digit = is_digit"
  by (rule ext) simp

lemma in_class_Word: "in_class Word = is_word"
  by (rule ext) simp

lemma GroupPlusE:
  assumes "x \<in> set (ms (Group n (Plus (Cls k))) st)"
  obtains w where "fst st = w @ fst x" "w \<noteq> []" "list_all (in_class k) w"
    "snd x = (n, w) # snd st"
proof -
  have "\<exists>w. (w \<noteq> [] \<and> list_all (in_class k) w) \<and> fst st = w @ fst x \<and> snd x = (n, w) # snd st"
    using assms by (rule ms_Group_run) (rule ms_Plus_Cls_run)
  with that show thesis by blast
qed

lemma Seq_GroupPlusE:
  assumes "x \<in> set (ms (Seq (Group n (Plus (Cls k))) r) st)"
  obtains w rest where "fst st = w @ rest" "w \<noteq> []" "list_all (in_class k) w"
    "x \<in> set (ms r (rest, (n, w) # snd st))"
proof -
  from assms obtain y where y: "y \<in> set (ms (Group n (Plus (Cls k))) st)"
    and x: "x \<in> set (ms r y)"
    unfolding ms_Seq_iff by blast
  from y obtain w where w: "fst st = w @ fst y" "w \<noteq> []" "list_all (in_class k) w"
    "snd y = (n, w) # snd st" by (rule GroupPlusE)
  from x w(4) have "x \<in> set (ms r (fst y, (n, w) # snd st))" by (cases y) simp
  with w that show thesis by blast
qed

lemma Seq_GroupPlusLazyE:
  assumes "x \<in> set (ms (Seq (Group n (PlusLazy (Cls k))) r) st)"
  obtains w rest where "fst st = w @ rest" "w \<noteq> []" "list_all (in_class k) w"
    "x \<in> set (ms r (rest, (n, w) # snd st))"
proof -
  from assms obtain y where y: "y \<in> set (ms (Group n (PlusLazy (Cls k))) st)"
    and x: "x \<in> set (ms r y)"
    unfolding ms_Seq_iff by blast
  have "\<exists>w. (w \<noteq> [] \<and> list_all (in_class k) w) \<and> fst st = w @ fst y \<and> snd y = (n, w) # snd st"
    using y by (rule ms_Group_run) (rule ms_PlusLazy_Cls_run)
  then obtain w where w: "fst st = w @ fst y" "w \<noteq> []" "list_all (in_class k) w"
    "snd y = (n, w) # snd st" by blast
  from x w(4) have "x \<in> set (ms r (fst y, (n, w) # snd st))" by (cases y) simp
  with w that show thesis by blast
qed

lemma Seq_Lit_pairE:
  assumes "x \<in> set (ms (Seq (Lit l) r) (s, g))"
  obtains rest where "s = l @ rest" "x \<in> set (ms r (rest, g))"
  using assms by (rule Seq_LitE) auto

lemma Seq_Star_pairE:
  assumes "x \<in> set (ms (Seq (Star (Cls k)) r) (s, g))"
  obtains w rest where "s = w @ rest" "list_all (in_class k) w" "x \<in> set (ms r (rest, g))"
  using assms by (rule Seq_StarE) auto

lemma Seq_GroupPlus_pairE:
  assumes "x \<in> set (ms (Seq (Group n (Plus (Cls k))) r) (s, g))"
  obtains w rest where "s = w @ rest" "w \<noteq> []" "list_all (in_class k) w"
    "x \<in> set (ms r (rest, (n, w) # g))"
  using assms by (rule Seq_GroupPlusE) auto

lemma Seq_GroupPlusLazy_pairE:
  assumes "x \<in> set (ms (Seq (Group n (PlusLazy (Cls k))) r) (s, g))"
  obtains w rest where "s = w @ rest" "w \<noteq> []" "list_all (in_class k) w"
    "x \<in> set (ms r (rest, (n, w) # g))"
  using assms by (rule Seq_GroupPlusLazyE) auto

lemma GroupPlus_pairE:
  assumes "x \<in> set (ms (Group n (Plus (Cls k))) (s, g))"
  obtains w where "s = w @ fst x" "w \<noteq> []" "list_all (in_class k) w" "snd x = (n, w) # g"
  using assms by (rule GroupPlusE) auto

declare finditer_from.simps [simp del]

lemma finditer_from_search:
  "m \<in> set (finditer_from r s pos) \<Longrightarrow> \<exists>k. search_from r (drop k s) (pos + k) = Some m"
proof (induction r s pos rule: finditer_from.induct)
  case (1 r s pos)
  show ?case
  proof (cases "search_from r s pos")
    case None
    with "1.prems" show ?thesis by (simp add: finditer_from.simps [of r s pos])
  next
    case (Some m')
    show ?thesis
    proof (cases "m = m'")
      case True
      with Some show ?thesis by (intro exI [of _ 0]) simp
    next
      case False
      define d where "d = max (m_end m') (Suc pos) - pos"
      have pd: "max (m_end m') (Suc pos) = pos + d" unfolding d_def by arith
      from False Some "1.prems" have ne: "s \<noteq> []"
        and mem: "m \<in> set (finditer_from r (drop d s) (pos + d))"
        unfolding d_def [symmetric] pd [symmetric]
        by (auto simp: finditer_from.simps [of r s pos] d_def split: if_splits)
      have "m \<in> set (finditer_from r (drop d s) (pos + d)) \<Longrightarrow>
          \<exists>k. search_from r (drop k (drop d s)) (pos + d + k) = Some m"
        using "1.IH" [OF Some ne] by (simp add: pd)
      with mem obtain k where
        "search_from r (drop k (drop d s)) (pos + d + k) = Some m" by blast
      moreover have "drop k (drop d s) = drop (d + k) s" by (simp add: add.commute)
      moreover have "pos + d + k = pos + (d + k)" by simp
      ultimately have "search_from r (drop (d + k) s) (pos + (d + k)) = Some m"
        by (simp only:)
      then show ?thesis by blast
    qed
  qed
qed

lemma finditer_match:
  assumes "m \<in> set (finditer r doc)"
  shows "\<exists>n. match_here r (drop (m_start m) doc) = Some (n, m_groups m) \<and>
             m_end m = m_start m + n"
proof -
  from assms obtain k where "search_from r (drop k doc) (0 + k) = Some m"
    unfolding finditer_def by (blast dest: finditer_from_search)
  from search_from_Some [OF this] obtain i n where
    "match_here r (drop i (drop k doc)) = Some (n, m_groups m)"
    "m_start m = 0 + k + i" "m_end m = 0 + k + i + n" by blast
  then show ?thesis by (intro exI [of _ n]) (simp add: add.commute)
qed

section \<open>Properties of the sprint-plan extractor\<close>

lemma sd_sprints_parse:
  "sd_sprints (parse_sprints_md doc today) =
     map (sprint_of_match doc) (finditer sprint_pattern doc)"
  by (simp add: parse_sprints_md_def Let_def)

lemma sample_sprints_eval:
  "sd_sprints (parse_sprints_md sample_sprints_md ''2026-01-01'') =
     [\<lparr>sp_id = 1, sp_goal = ''Core'', sp_status = ''COMPLETE'', sp_duration = ''1 week'',
        sp_progress = \<lparr>pr_completed = 2, pr_total = 2\<rparr>,
        sp_deliverables = [''Upload'', ''Preview'', ''. Export''],
        sp_tasks = [\<lparr>ts_id = ''task-1'', ts_status = ''DONE'', ts_title = ''First''\<rparr>,
                    \<lparr>ts_id = ''task-1'', ts_status = ''DONE'', ts_title = ''Again''\<rparr>],
        sp_completed = Some ''2025-10-04''\<rparr>]"
  by code_simp

text \<open>
  C2, as stated: within one sprint no two task summaries carry the same identifier. The
  sample plan refutes it: both task lines of its sprint are kept.
\<close>

theorem sprint_task_ids_not_unique:
  "map (map ts_id \<circ> sp_tasks) (sd_sprints (parse_sprints_md sample_sprints_md ''2026-01-01''))
     = [[''task-1'', ''task-1'']]"
  by (simp add: sample_sprints_eval)

text \<open>
  C2, amended: the task summaries of a sprint are the matches of the task-line pattern in the
  sprint's span, one summary per match in document order, and nothing is removed: the
  identifiers of the summaries are the identifiers captured by the successive matches.
\<close>

theorem sprint_task_ids_are_matches:
  "map (map ts_id \<circ> sp_tasks) (sd_sprints (parse_sprints_md doc today)) =
     map (\<lambda>m. map (\<lambda>tm. group tm 1)
                   (finditer sprint_task_pattern (section_of next_sprint_pattern doc m)))
         (finditer sprint_pattern doc)"
  by (simp add: sd_sprints_parse sprint_of_match_def sprint_tasks_def Let_def comp_def)

text \<open>
  C3: every numbered line of the deliverables section yields its text without the numbering
  marker, however many digits the number has. The extractor drops the first three
  characters of the line, which is the marker of a one-digit or two-digit number only: the
  line \<^verbatim>\<open>100. Export\<close> of the sample plan yields \<^verbatim>\<open>. Export\<close>.
\<close>

theorem three_digit_deliverable:
  "map sp_deliverables (sd_sprints (parse_sprints_md sample_sprints_md ''2026-01-01''))
     = [[''Upload'', ''Preview'', ''. Export'']]"
  by (simp add: sample_sprints_eval)

lemma sample_sprints_matches:
  "map m_groups (finditer sprint_pattern sample_sprints_md) =
     [[(6, ''2''), (5, ''2''), (4, ''COMPLETE''), (3, ''1 week''), (2, ''Core ''), (1, ''1'')]]"
  by code_simp

text \<open>
  C1, as stated: the fields of the record equal the matched groups. The goal line of the
  sample plan ends in a blank, which group 2 holds and the goal of the record does not.
\<close>

theorem sprint_goal_is_trimmed:
  "map m_groups (finditer sprint_pattern sample_sprints_md) =
     [[(6, ''2''), (5, ''2''), (4, ''COMPLETE''), (3, ''1 week''), (2, ''Core ''), (1, ''1'')]] \<and>
   map sp_goal (sd_sprints (parse_sprints_md sample_sprints_md ''2026-01-01'')) = [''Core'']"
  by (simp add: sample_sprints_matches sample_sprints_eval)

lemma sprint_pattern_sound:
  assumes "x \<in> set (ms sprint_pattern (s, []))"
  shows "\<exists>h. header_ok h \<and> s = header_text h @ fst x \<and> snd x = header_groups h"
proof -
  let ?p19 = "Group 6 (Plus (Cls Digit))"
  let ?p18 = "Seq (Lit ''/'') ?p19"
  let ?p17 = "Seq (Group 5 (Plus (Cls Digit))) ?p18"
  let ?p16 = "Seq (Star (Cls Space)) ?p17"
  let ?p15 = "Seq (Lit ''**Progress**:'') ?p16"
  let ?p14 = "Seq (Lit [nl]) ?p15"
  let ?p13 = "Seq (Group 4 (Plus (Cls Word))) ?p14"
  let ?p12 = "Seq (Star (Cls Space)) ?p13"
  let ?p11 = "Seq (Lit ''**Status**:'') ?p12"
  let ?p10 = "Seq (Lit [nl]) ?p11"
  let ?p9 = "Seq (Group 3 (PlusLazy (Cls Dot))) ?p10"
  let ?p8 = "Seq (Star (Cls Space)) ?p9"
  let ?p7 = "Seq (Lit ''**Duration**:'') ?p8"
  let ?p6 = "Seq (Lit [nl, nl]) ?p7"
  let ?p5 = "Seq (Group 2 (PlusLazy (Cls Dot))) ?p6"
  let ?p4 = "Seq (Star (Cls Space)) ?p5"
  let ?p3 = "Seq (Lit '':'') ?p4"
  let ?p2 = "Seq (Group 1 (Plus (Cls Digit))) ?p3"
  from assms have "x \<in> set (ms (Seq (Lit ''## Sprint '') ?p2) (s, []))"
    by (simp only: sprint_pattern_def seqs.simps)
  then obtain r1 where s1: "s = ''## Sprint '' @ r1" and x1: "x \<in> set (ms ?p2 (r1, []))"
    by (rule Seq_Lit_pairE)
  from x1 obtain d r2 where s2: "r1 = d @ r2" and d: "d \<noteq> []" "list_all (in_class Digit) d"
    and x2: "x \<in> set (ms ?p3 (r2, [(1, d)]))"
    by (rule Seq_GroupPlus_pairE)
  from x2 obtain r3 where s3: "r2 = '':'' @ r3" and x3: "x \<in> set (ms ?p4 (r3, [(1, d)]))"
    by (rule Seq_Lit_pairE)
  from x3 obtain b1 r4 where s4: "r3 = b1 @ r4" and b1: "list_all (in_class Space) b1"
    and x4: "x \<in> set (ms ?p5 (r4, [(1, d)]))"
    by (rule Seq_Star_pairE)
  from x4 obtain goal r5 where s5: "r4 = goal @ r5" and goal: "goal \<noteq> []" "list_all (in_class Dot) goal"
    and x5: "x \<in> set (ms ?p6 (r5, [(2, goal), (1, d)]))"
    by (rule Seq_GroupPlusLazy_pairE)
  from x5 obtain r6 where s6: "r5 = [nl, nl] @ r6" and x6: "x \<in> set (ms ?p7 (r6, [(2, goal), (1, d)]))"
    by (rule Seq_Lit_pairE)
  from x6 obtain r7 where s7: "r6 = ''**Duration**:'' @ r7"
    and x7: "x \<in> set (ms ?p8 (r7, [(2, goal), (1, d)]))"
    by (rule Seq_Lit_pairE)
  from x7 obtain b2 r8 where s8: "r7 = b2 @ r8" and b2: "list_all (in_class Space) b2"
    and x8: "x \<in> set (ms ?p9 (r8, [(2, goal), (1, d)]))"
    by (rule Seq_Star_pairE)
  from x8 obtain dur r9 where s9: "r8 = dur @ r9" and dur: "dur \<noteq> []" "list_all (in_class Dot) dur"
    and x9: "x \<in> set (ms ?p10 (r9, [(3, dur), (2, goal), (1, d)]))"
    by (rule Seq_GroupPlusLazy_pairE)
  from x9 obtain r10 where s10: "r9 = [nl] @ r10"
    and x10: "x \<in> set (ms ?p11 (r10, [(3, dur), (2, goal), (1, d)]))"
    by (rule Seq_Lit_pairE)
  from x10 obtain r11 where s11: "r10 = ''**Status**:'' @ r11"
    and x11: "x \<in> set (ms ?p12 (r11, [(3, dur), (2, goal), (1, d)]))"
    by (rule Seq_Lit_pairE)
  from x11 obtain b3 r12 where s12: "r11 = b3 @ r12" and b3: "list_all (in_class Space) b3"
    and x12: "x \<in> set (ms ?p13 (r12, [(3, dur), (2, goal), (1, d)]))"
    by (rule Seq_Star_pairE)
  from x12 obtain st r13 where s13: "r12 = st @ r13" and st: "st \<noteq> []" "list_all (in_class Word) st"
    and x13: "x \<in> set (ms ?p14 (r13, [(4, st), (3, dur), (2, goal), (1, d)]))"
    by (rule Seq_GroupPlus_pairE)
  from x13 obtain r14 where s14: "r13 = [nl] @ r14"
    and x14: "x \<in> set (ms ?p15 (r14, [(4, st), (3, dur), (2, goal), (1, d)]))"
    by (rule Seq_Lit_pairE)
  from x14 obtain r15 where s15: "r14 = ''**Progress**:'' @ r15"
    and x15: "x \<in> set (ms ?p16 (r15, [(4, st), (3, dur), (2, goal), (1, d)]))"
    by (rule Seq_Lit_pairE)
  from x15 obtain b4 r16 where s16: "r15 = b4 @ r16" and b4: "list_all (in_class Space) b4"
    and x16: "x \<in> set (ms ?p17 (r16, [(4, st), (3, dur), (2, goal), (1, d)]))"
    by (rule Seq_Star_pairE)
  from x16 obtain c r17 where s17: "r16 = c @ r17" and c: "c \<noteq> []" "list_all (in_class Digit) c"
    and x17: "x \<in> set (ms ?p18 (r17, [(5, c), (4, st), (3, dur), (2, goal), (1, d)]))"
    by (rule Seq_GroupPlus_pairE)
  from x17 obtain r18 where s18: "r17 = ''/'' @ r18"
    and x18: "x \<in> set (ms ?p19 (r18, [(5, c), (4, st), (3, dur), (2, goal), (1, d)]))"
    by (rule Seq_Lit_pairE)
  from x18 obtain t where s19: "r18 = t @ fst x" and t: "t \<noteq> []" "list_all (in_class Digit) t"
    and g: "snd x = [(6, t), (5, c), (4, st), (3, dur), (2, goal), (1, d)]"
    by (rule GroupPlus_pairE)
  define h where "h = \<lparr>hp_number = d, hp_blanks1 = b1, hp_goal = goal, hp_blanks2 = b2,
    hp_duration = dur, hp_blanks3 = b3, hp_status = st, hp_blanks4 = b4, hp_completed = c,
    hp_total = t\<rparr>"
  have "header_ok h"
    using d b1 goal b2 dur b3 st b4 c t
    by (simp add: header_ok_def h_def in_class_Digit in_class_Space in_class_Dot in_class_Word)
  moreover have "s = header_text h @ fst x"
    unfolding s1 s2 s3 s4 s5 s6 s7 s8 s9 s10 s11 s12 s13 s14 s15 s16 s17 s18 s19
    by (simp add: header_text_def h_def)
  moreover have "snd x = header_groups h" using g by (simp add: header_groups_def h_def)
  ultimately show ?thesis by blast
qed

text \<open>Every match of the scan is a full sprint header.\<close>

lemma finditer_sprint_header:
  assumes "m \<in> set (finditer sprint_pattern doc)"
  shows "\<exists>h. header_ok h \<and> prefix (header_text h) (drop (m_start m) doc) \<and>
             m_groups m = header_groups h"
proof -
  from finditer_match [OF assms] obtain n where
    "match_here sprint_pattern (drop (m_start m) doc) = Some (n, m_groups m)" by blast
  then obtain s' zs where
    "ms sprint_pattern (drop (m_start m) doc, []) = (s', m_groups m) # zs"
    by (auto simp: match_here_def split: list.splits)
  then have "(s', m_groups m) \<in> set (ms sprint_pattern (drop (m_start m) doc, []))" by simp
  from sprint_pattern_sound [OF this] show ?thesis by (auto simp: prefix_def)
qed

lemma is_word_not_space: "is_word c \<Longrightarrow> \<not> is_space c"
  by (auto simp: is_word_def is_space_def)

lemma strip_no_blank: "list_all (\<lambda>c. \<not> is_space c) w \<Longrightarrow> strip w = w"
proof (cases w rule: rev_cases)
  case Nil
  then show ?thesis by (simp add: strip_def)
next
  case (snoc ys y)
  assume a: "list_all (\<lambda>c. \<not> is_space c) w"
  then have "dropWhile is_space w = w" by (cases w) auto
  moreover from a snoc have "dropWhile is_space (rev w) = rev w" by simp
  ultimately show ?thesis by (simp add: strip_def)
qed

lemma header_status_group:
  assumes "header_ok h" "m_groups m = header_groups h"
  shows "strip (group m 4) = group m 4"
proof -
  from assms have "group m 4 = hp_status h" by (simp add: group_def header_groups_def)
  moreover from assms(1) have "list_all (\<lambda>c. \<not> is_space c) (hp_status h)"
    by (auto simp: header_ok_def list_all_iff is_word_not_space)
  ultimately show ?thesis by (simp add: strip_no_blank)
qed

text \<open>
  C1, amended: the sprint list has exactly one record for every match of the header pattern
  that the scan of the document finds, in document order; the id and the two progress
  counts are the numbers written in groups 1, 5 and 6, the status is group 4, and the goal
  and the duration are groups 2 and 3 without the blanks around them. Every such match is a
  whole header, its five elements in order with nothing but blanks between a label and its
  value; text that is no such header yields no record, and nothing is raised: the extractor
  is a total function.
\<close>

theorem sprint_fields_from_groups:
  "map (\<lambda>s. (sp_id s, sp_goal s, sp_duration s, sp_status s,
              pr_completed (sp_progress s), pr_total (sp_progress s)))
       (sd_sprints (parse_sprints_md doc today)) =
   map (\<lambda>m. (py_int (group m 1), strip (group m 2), strip (group m 3), group m 4,
              py_int (group m 5), py_int (group m 6)))
       (finditer sprint_pattern doc) \<and>
   list_all (\<lambda>m. \<exists>h. header_ok h \<and> prefix (header_text h) (drop (m_start m) doc) \<and>
                     m_groups m = header_groups h)
            (finditer sprint_pattern doc)"
proof
  show "list_all (\<lambda>m. \<exists>h. header_ok h \<and> prefix (header_text h) (drop (m_start m) doc) \<and>
                     m_groups m = header_groups h)
            (finditer sprint_pattern doc)"
    unfolding list_all_iff by (blast dest: finditer_sprint_header)
  have "\<And>m. m \<in> set (finditer sprint_pattern doc) \<Longrightarrow> strip (group m 4) = group m 4"
    using finditer_sprint_header header_status_group by blast
  then show "map (\<lambda>s. (sp_id s, sp_goal s, sp_duration s, sp_status s,
              pr_completed (sp_progress s), pr_total (sp_progress s)))
       (sd_sprints (parse_sprints_md doc today)) =
   map (\<lambda>m. (py_int (group m 1), strip (group m 2), strip (group m 3), group m 4,
              py_int (group m 5), py_int (group m 6)))
       (finditer sprint_pattern doc)"
    by (simp add: parse_sprints_md_def sprint_of_match_def Let_def)
qed

lemma sample_two_sprints_status:
  "map (\<lambda>m. group m 4) (finditer sprint_pattern sample_two_sprints_md) =
     [''COMPLETE'', ''ACTIVE'']"
  by code_simp

text \<open>
  C7: the sprint list has one record for every header that the scan of the document finds,
  in document order. The status of the record is the status token of that header, the word
  written after the label \<^verbatim>\<open>**Status**:\<close> and captured as group 4; the record carries a
  completion date exactly when this token is \<^verbatim>\<open>COMPLETE\<close>, and the date is then the literal
  \<^verbatim>\<open>2025-10-04\<close>, the same for every sprint, whatever else the document says and whatever
  the day of the run is.
\<close>

theorem sprint_completed_date:
  "map (\<lambda>s. (sp_status s, sp_completed s)) (sd_sprints (parse_sprints_md doc today)) =
     map (\<lambda>g. (g, if g = ''COMPLETE'' then Some ''2025-10-04'' else None))
         (map (\<lambda>m. group m 4) (finditer sprint_pattern doc)) \<and>
   list_all (\<lambda>m. \<exists>h. header_ok h \<and> prefix (header_text h) (drop (m_start m) doc) \<and>
                     group m 4 = hp_status h)
            (finditer sprint_pattern doc)"
proof
  have hdr: "\<And>m. m \<in> set (finditer sprint_pattern doc) \<Longrightarrow>
      \<exists>h. header_ok h \<and> prefix (header_text h) (drop (m_start m) doc) \<and>
          m_groups m = header_groups h"
    by (rule finditer_sprint_header)
  show "list_all (\<lambda>m. \<exists>h. header_ok h \<and> prefix (header_text h) (drop (m_start m) doc) \<and>
                     group m 4 = hp_status h)
            (finditer sprint_pattern doc)"
    unfolding list_all_iff
  proof
    fix m assume "m \<in> set (finditer sprint_pattern doc)"
    from hdr [OF this] obtain h where
      h: "header_ok h" "prefix (header_text h) (drop (m_start m) doc)"
         "m_groups m = header_groups h" by blast
    from h(3) have "group m 4 = hp_status h" by (simp add: group_def header_groups_def)
    with h(1,2) show "\<exists>h. header_ok h \<and> prefix (header_text h) (drop (m_start m) doc) \<and>
                     group m 4 = hp_status h" by blast
  qed
  have "\<And>m. m \<in> set (finditer sprint_pattern doc) \<Longrightarrow> strip (group m 4) = group m 4"
    using hdr header_status_group by blast
  then show "map (\<lambda>s. (sp_status s, sp_completed s)) (sd_sprints (parse_sprints_md doc today)) =
     map (\<lambda>g. (g, if g = ''COMPLETE'' then Some ''2025-10-04'' else None))
         (map (\<lambda>m. group m 4) (finditer sprint_pattern doc))"
    by (simp add: parse_sprints_md_def sprint_of_match_def Let_def)
qed

theorem sprint_completed_date_witness:
  "map (\<lambda>s. (sp_status s, sp_completed s))
       (sd_sprints (parse_sprints_md sample_two_sprints_md ''2026-01-01'')) =
     [(''COMPLETE'', Some ''2025-10-04''), (''ACTIVE'', None)]"
  using sprint_completed_date [of sample_two_sprints_md "''2026-01-01''"]
  by (simp add: sample_two_sprints_status)

section \<open>Properties of the task extractors\<close>

lemma extract_description_no_boundary:
  assumes "\<not> has_description_boundary task_section"
  shows "extract_description task_section = []"
proof -
  have "re_search description_pattern task_section = None"
    unfolding re_search_None_iff
  proof (intro allI impI)
    fix i assume "i \<le> length task_section"
    show "ms description_pattern (drop i task_section, []) = []"
    proof (rule ccontr)
      assume "ms description_pattern (drop i task_section, []) \<noteq> []"
      from description_match_needs_boundary [OF this]
      have "has_description_boundary task_section"
        unfolding has_description_boundary_def list_ex_iff
        by (intro bexI [of _ "drop i task_section"]) (simp_all add: suffix_drop)
      with assms show False by contradiction
    qed
  qed
  then show ?thesis by (simp add: extract_description_def)
qed

text \<open>
  C10: a task whose span has no description boundary gets the empty description, in the
  active-task and in the completed-task extractor alike, whatever text follows the
  description label; the extractors are total functions, so nothing is raised.
\<close>

theorem description_empty_without_boundary:
  "\<not> has_description_boundary (section_of next_task_pattern md m) \<Longrightarrow>
     tk_description (task_of_match md m) = [] \<and>
     ct_description (completed_task_of_match md m) = []"
  by (simp add: task_of_match_def completed_task_of_match_def Let_def
      extract_description_no_boundary)

lemma sample_task_second_span:
  "section_of next_task_pattern sample_task_md (finditer task_pattern sample_task_md ! 1) =
     ''### Task 3.2: Settings'' @ [nl, nl] @
     ''**ID**: task-021'' @ [nl] @
     ''**Priority**: LOW'' @ [nl] @
     ''**Status**: PENDING'' @ [nl] @
     ''**Estimated Effort**: 2 hours'' @ [nl, nl] @
     ''**Description**:'' @ [nl] @
     ''Persist the settings.'' @ [nl] @
     ''**Blockers**: None'' @ [nl]"
  by code_simp

theorem description_empty_without_boundary_witness:
  "\<not> has_description_boundary
        (section_of next_task_pattern sample_task_md (finditer task_pattern sample_task_md ! 1)) \<and>
   sublist (''**Description**:'' @ [nl] @ ''Persist the settings.'')
        (section_of next_task_pattern sample_task_md (finditer task_pattern sample_task_md ! 1)) \<and>
   tk_description (task_of_match sample_task_md (finditer task_pattern sample_task_md ! 1)) = [] \<and>
   ct_description (completed_task_of_match sample_task_md
        (finditer task_pattern sample_task_md ! 1)) = []"
proof -
  have h: "\<not> has_description_boundary
        (section_of next_task_pattern sample_task_md (finditer task_pattern sample_task_md ! 1))"
    unfolding sample_task_second_span by code_simp
  have t: "sublist (''**Description**:'' @ [nl] @ ''Persist the settings.'')
        (section_of next_task_pattern sample_task_md (finditer task_pattern sample_task_md ! 1))"
    unfolding sample_task_second_span by code_simp
  from description_empty_without_boundary [OF h] h t show ?thesis by blast
qed

lemma blockers_pattern_labeled: "blockers_pattern = labeled ''**Blockers**:''"
  by (simp add: blockers_pattern_def)

lemma extract_blockers_line:
  assumes "blocker_line_text task_section \<noteq> Some []"
  shows "extract_blockers task_section =
     (case blocker_line_text task_section of
        None \<Rightarrow> None
      | Some t \<Rightarrow> if t = ''None'' then None else Some t)"
proof (cases "after_first ''**Blockers**:'' task_section")
  case None
  from search_labeled_line(1) [OF _ None, of 0]
  have "re_search blockers_pattern task_section = None"
    by (simp add: re_search_def blockers_pattern_labeled)
  with None show ?thesis by (simp add: extract_blockers_def blocker_line_text_def)
next
  case (Some t)
  with assms have ne: "strip (takeWhile (\<lambda>c. c \<noteq> nl) t) \<noteq> []"
    by (simp add: blocker_line_text_def)
  from search_labeled_line(2) [OF _ Some ne, of 0] obtain m where
    "re_search blockers_pattern task_section = Some m"
    "strip (group m 1) = strip (takeWhile (\<lambda>c. c \<noteq> nl) t)"
    by (auto simp: re_search_def blockers_pattern_labeled)
  with Some show ?thesis by (simp add: extract_blockers_def blocker_line_text_def Let_def)
qed

text \<open>
  The field is never the string \<^verbatim>\<open>None\<close>. When the blocker line of the span has a text, or
  the span has no blocker label, the field is null for an absent line and for the text
  \<^verbatim>\<open>None\<close>, and is the text of the line otherwise. A blocker line without text is the one
  case that this leaves open.
\<close>

lemma blockers_field_of_blocker_line:
  "tk_blockers (task_of_match task_md m) \<noteq> Some ''None'' \<and>
   (blocker_line_text (section_of next_task_pattern task_md m) \<noteq> Some [] \<longrightarrow>
     tk_blockers (task_of_match task_md m) =
       (case blocker_line_text (section_of next_task_pattern task_md m) of
          None \<Rightarrow> None
        | Some t \<Rightarrow> if t = ''None'' then None else Some t))"
proof
  show "tk_blockers (task_of_match task_md m) \<noteq> Some ''None''"
    by (simp add: task_of_match_def Let_def extract_blockers_def)
  show "blocker_line_text (section_of next_task_pattern task_md m) \<noteq> Some [] \<longrightarrow>
     tk_blockers (task_of_match task_md m) =
       (case blocker_line_text (section_of next_task_pattern task_md m) of
          None \<Rightarrow> None
        | Some t \<Rightarrow> if t = ''None'' then None else Some t)"
    by (simp add: task_of_match_def Let_def extract_blockers_line)
qed

lemma blockers_field_of_sample_task:
  "blocker_line_text
      (section_of next_task_pattern sample_task_md (finditer task_pattern sample_task_md ! 1))
     = Some ''None'' \<and>
   tk_blockers (task_of_match sample_task_md (finditer task_pattern sample_task_md ! 1)) = None"
proof -
  have h: "blocker_line_text
      (section_of next_task_pattern sample_task_md (finditer task_pattern sample_task_md ! 1))
     = Some ''None''"
    unfolding sample_task_second_span by code_simp
  then have "blocker_line_text
      (section_of next_task_pattern sample_task_md (finditer task_pattern sample_task_md ! 1))
     \<noteq> Some []" by simp
  with blockers_field_of_blocker_line [of sample_task_md "finditer task_pattern sample_task_md ! 1"] h
  show ?thesis by simp
qed

lemma sample_task_eval:
  "td_tasks (parse_task_md sample_task_md ''2026-01-01T00:00:00'') =
     [\<lparr>tk_id = ''task-020'', tk_title = ''Presets'', tk_priority = ''HIGH'',
        tk_status = ''PENDING'', tk_estimated = ''4 hours'',
        tk_description = ''Add material presets.'',
        tk_acceptance_criteria =
          [\<lparr>ac_criterion = ''Export works'', ac_completed = True\<rparr>,
           \<lparr>ac_criterion = ''Import works'', ac_completed = False\<rparr>],
        tk_blockers = Some ''**Documentation**:'',
        tk_documentation = [\<lparr>dl_title = ''Spec'', dl_path = ''docs/spec.md''\<rparr>]\<rparr>,
      \<lparr>tk_id = ''task-021'', tk_title = ''Settings'', tk_priority = ''LOW'',
        tk_status = ''PENDING'', tk_estimated = ''2 hours'', tk_description = [],
        tk_acceptance_criteria = [], tk_blockers = None, tk_documentation = []\<rparr>]"
  by code_simp

lemma sample_task_first_blocker_line:
  "blocker_line_text
      (section_of next_task_pattern sample_task_md (finditer task_pattern sample_task_md ! 0))
     = Some []"
  by code_simp

text \<open>
  C5: the field is the text of the blocker line, and null when that text is \<^verbatim>\<open>None\<close> or the
  span has no blocker line. The script does not do this for a blocker line without text. The
  first task of the sample has such a line, followed by an empty line and the documentation
  label: the blanks \<^verbatim>\<open>\s*\<close> of the pattern run over both line breaks, the group \<^verbatim>\<open>(.+)\<close>
  takes the next line that has text, and the field of the record is the label
  \<^verbatim>\<open>**Documentation**:\<close> of another section, neither the empty text of the blocker line nor
  null. The second task, whose blocker line reads \<^verbatim>\<open>None\<close>, has the null field.
\<close>

theorem blockers_field_of_empty_blocker_line:
  "blocker_line_text
      (section_of next_task_pattern sample_task_md (finditer task_pattern sample_task_md ! 0))
     = Some [] \<and>
   map tk_blockers (td_tasks (parse_task_md sample_task_md ''2026-01-01T00:00:00''))
     = [Some ''**Documentation**:'', None]"
  by (simp add: sample_task_first_blocker_line sample_task_eval)

lemma checklist_body_sound:
  assumes "x \<in> set (ms checklist_body st)"
  shows "\<exists>l. checklist_line l \<and> fst st = l @ nl # fst x \<and> snd x = snd st"
proof -
  from assms obtain y1 where y1: "y1 \<in> set (ms (Lit ''- ['') st)"
    and r1: "x \<in> set (ms (Seq (Cls Dot) (Seq (Lit ''] '') (Seq (Plus (Cls Dot)) (Lit [nl])))) y1)"
    unfolding ms_Seq_iff [of x "Lit ''- [''"] by blast
  from r1 obtain y2 where y2: "y2 \<in> set (ms (Cls Dot) y1)"
    and r2: "x \<in> set (ms (Seq (Lit ''] '') (Seq (Plus (Cls Dot)) (Lit [nl]))) y2)"
    unfolding ms_Seq_iff [of x "Cls Dot"] by blast
  from r2 obtain y3 where y3: "y3 \<in> set (ms (Lit ''] '') y2)"
    and r3: "x \<in> set (ms (Seq (Plus (Cls Dot)) (Lit [nl])) y3)"
    unfolding ms_Seq_iff [of x "Lit ''] ''"] by blast
  from r3 obtain y4 where y4: "y4 \<in> set (ms (Plus (Cls Dot)) y3)"
    and r4: "x \<in> set (ms (Lit [nl]) y4)"
    unfolding ms_Seq_iff [of x "Plus (Cls Dot)"] by blast
  from y1 have p1: "prefix ''- ['' (fst st)"
    and v1: "y1 = (drop (length ''- ['') (fst st), snd st)"
    unfolding ms_Lit_iff by blast+
  from p1 obtain s1 where s1: "fst st = ''- ['' @ s1" by (auto simp: prefix_def)
  with v1 have f1: "fst y1 = s1" "snd y1 = snd st" by simp_all
  from y2 f1 obtain c s2 where s2: "s1 = c # s2" and c: "c \<noteq> nl"
    and f2: "fst y2 = s2" "snd y2 = snd st"
    unfolding ms_Cls_iff by (cases s1) auto
  from y3 f2 have p3: "prefix ''] '' s2" and v3: "y3 = (drop (length ''] '') s2, snd st)"
    unfolding ms_Lit_iff by simp_all
  from p3 obtain s3 where s3: "s2 = ''] '' @ s3" by (auto simp: prefix_def)
  with v3 have f3: "fst y3 = s3" "snd y3 = snd st" by simp_all
  from ms_Plus_Cls_sound [OF y4] f3 obtain w where w: "w \<noteq> []" "\<forall>d\<in>set w. d \<noteq> nl"
    and s4: "s3 = w @ fst y4" and f4: "snd y4 = snd st" by auto
  from r4 have p5: "prefix [nl] (fst y4)" and v5: "x = (drop (length [nl]) (fst y4), snd y4)"
    unfolding ms_Lit_iff by blast+
  from p5 obtain s5 where s5: "fst y4 = nl # s5" by (auto simp: prefix_def)
  with v5 f4 have fx: "fst x = s5" "snd x = snd st" by simp_all
  define l where "l = ''- ['' @ c # ''] '' @ w"
  have "fst st = l @ nl # fst x" unfolding l_def s1 s2 s3 s4 s5 fx by simp
  moreover have "checklist_line l"
    using c w unfolding l_def checklist_line_def by auto
  ultimately show ?thesis using fx by blast
qed

lemma checklist_star_sound:
  "x \<in> set (ms (Star checklist_body) st) \<Longrightarrow>
     \<exists>ls. list_all checklist_line ls \<and> fst st = unlines ls @ fst x \<and> snd x = snd st"
proof (induction "length (fst st)" arbitrary: st rule: less_induct)
  case less
  obtain s g where st: "st = (s, g)" by (cases st)
  show ?case
  proof (cases "x = st")
    case True
    then show ?thesis by (intro exI [of _ "[]"]) (simp add: unlines_def)
  next
    case False
    from less.prems st have "x \<in> set (concat (map (\<lambda>st'. if length (fst st') < length s
          then ms (Star checklist_body) st' else []) (ms checklist_body (s, g))) @ [(s, g)])"
      by (simp only: ms.simps(4))
    with False st obtain y where y: "y \<in> set (ms checklist_body (s, g))"
      and l: "length (fst y) < length s" and x: "x \<in> set (ms (Star checklist_body) y)"
      by (auto simp del: ms.simps split: if_splits)
    from checklist_body_sound [OF y] obtain l0 where l0: "checklist_line l0"
      "s = l0 @ nl # fst y" "snd y = g" by auto
    from l st have "length (fst y) < length (fst st)" by simp
    from less.hyps [OF this x] obtain ls where ls: "list_all checklist_line ls"
      "fst y = unlines ls @ fst x" "snd x = snd y" by blast
    with l0 st show ?thesis
      by (intro exI [of _ "l0 # ls"]) (simp add: unlines_def)
  qed
qed

lemma criteria_match_sound:
  assumes "x \<in> set (ms criteria_pattern (s, []))"
  shows "\<exists>ls. ls \<noteq> [] \<and> list_all checklist_line ls \<and> snd x = [(1, unlines ls)]"
proof -
  let ?H = "''**Acceptance Criteria**:'' @ [nl]"
  from assms have "x \<in> set (ms (Seq (Lit ?H) (Group 1 (Plus checklist_body))) (s, []))"
    by (simp only: criteria_pattern_def seqs.simps)
  then obtain y where y: "y \<in> set (ms (Lit ?H) (s, []))"
    and x1: "x \<in> set (ms (Group 1 (Seq checklist_body (Star checklist_body))) y)"
    unfolding ms_Seq_iff [of x "Lit ?H"] Plus_def by blast
  from y have gy: "snd y = []" unfolding ms_Lit_iff by simp
  from x1 obtain z where z: "z \<in> set (ms (Seq checklist_body (Star checklist_body)) y)"
    and xv: "x = (fst z, (1, take (length (fst y) - length (fst z)) (fst y)) # snd z)"
    unfolding ms_Group_iff by blast
  from z obtain u where u: "u \<in> set (ms checklist_body y)"
    and z2: "z \<in> set (ms (Star checklist_body) u)"
    unfolding ms_Seq_iff [of z checklist_body] by blast
  from checklist_body_sound [OF u] obtain l0 where l0: "checklist_line l0"
    "fst y = l0 @ nl # fst u" "snd u = snd y" by blast
  from checklist_star_sound [OF z2] obtain ls where ls: "list_all checklist_line ls"
    "fst u = unlines ls @ fst z" "snd z = snd u" by blast
  have "fst y = unlines (l0 # ls) @ fst z" using l0 ls by (simp add: unlines_def)
  then have "take (length (fst y) - length (fst z)) (fst y) = unlines (l0 # ls)" by simp
  with xv l0 ls gy show ?thesis
    by (intro exI [of _ "l0 # ls"]) simp
qed

lemma criteria_block_shape:
  assumes "re_search criteria_pattern task_section = Some cm"
  shows "\<exists>ls. ls \<noteq> [] \<and> list_all checklist_line ls \<and> group cm 1 = unlines ls"
proof -
  from re_search_Some_state [OF assms] obtain i x where
    "x \<in> set (ms criteria_pattern (drop i task_section, []))" "m_groups cm = snd x" by blast
  from criteria_match_sound [OF this(1)] this(2) obtain ls where
    "ls \<noteq> []" "list_all checklist_line ls" "m_groups cm = [(1, unlines ls)]" by auto
  then show ?thesis by (intro exI [of _ ls]) (simp add: group_def)
qed


lemma split_nl_line: "nl \<notin> set l \<Longrightarrow> split_nl (l @ nl # rest) = l # split_nl rest"
  by (induction l) auto

lemma split_nl_unlines:
  "list_all (\<lambda>l. nl \<notin> set l) ls \<Longrightarrow> split_nl (unlines ls) = ls @ [[]]"
  by (induction ls) (simp_all add: unlines_def split_nl_line)

lemma checklist_line_shape:
  assumes "checklist_line l"
  obtains c t where "l = ''- ['' @ c # ''] '' @ t" "t \<noteq> []" "nl \<notin> set l"
proof -
  from assms obtain r where r: "l = ''- ['' @ r" and tk: "take 2 (drop 4 l) = ''] ''"
    and len: "6 < length l" and n: "nl \<notin> set l"
    unfolding checklist_line_def by (auto simp: prefix_def)
  from r len obtain c r' where r': "r = c # r'" by (cases r) auto
  from tk r r' have "take 2 r' = ''] ''" by simp
  then obtain t where t: "r' = ''] '' @ t"
    by (metis append_take_drop_id)
  from len r r' t have "t \<noteq> []" by auto
  with r r' t n that show thesis by simp
qed

lemma checklist_line_marker:
  assumes "checklist_line l"
  shows "CHR ''x'' \<in> set (take 6 l) \<longleftrightarrow> l ! 3 = CHR ''x''"
proof -
  from assms obtain c t where "l = ''- ['' @ c # ''] '' @ t" by (rule checklist_line_shape)
  then show ?thesis by auto
qed

lemma checklist_line_kept:
  assumes "checklist_line l"
  shows "prefix ''- ['' (strip l)"
proof -
  from assms obtain c t where l: "l = ''- ['' @ c # ''] '' @ t" by (rule checklist_line_shape)
  define r where "r = c # ''] '' @ t"
  have l': "l = ''- ['' @ r" by (simp add: l r_def)
  have "dropWhile is_space l = l" unfolding l by (simp add: is_space_def)
  then have "strip l = rev (dropWhile is_space (rev r @ rev ''- [''))"
    by (simp add: strip_def l')
  also have "dropWhile is_space (rev r @ rev ''- ['') =
      (if \<forall>x\<in>set (rev r). is_space x then dropWhile is_space (rev ''- ['')
       else dropWhile is_space (rev r) @ rev ''- ['')"
    by (rule dropWhile_append)
  also have "dropWhile is_space (rev ''- ['') = rev ''- [''" by (simp add: is_space_def)
  finally have "strip l = ''- ['' \<or> strip l = ''- ['' @ rev (dropWhile is_space (rev r))"
    by (simp split: if_splits)
  then show ?thesis by (auto simp: prefix_def)
qed

lemma criteria_of_block_unlines:
  assumes "list_all checklist_line ls"
  shows "criteria_of_block (unlines ls) = map criterion_of_line ls"
    and "butlast (split_nl (unlines ls)) = ls"
proof -
  from assms have "list_all (\<lambda>l. nl \<notin> set l) ls"
    by (auto simp: list_all_iff checklist_line_def)
  then have sp: "split_nl (unlines ls) = ls @ [[]]" by (rule split_nl_unlines)
  then show "butlast (split_nl (unlines ls)) = ls" by simp
  from assms have "filter (\<lambda>line. prefix ''- ['' (strip line)) ls = ls"
    by (auto simp: list_all_iff checklist_line_kept intro: filter_True)
  moreover have "\<not> prefix ''- ['' (strip [])" by (simp add: strip_def)
  ultimately show "criteria_of_block (unlines ls) = map criterion_of_line ls"
    by (simp add: criteria_of_block_def sp)
qed

text \<open>
  C4: every line of a recognized checklist block yields one criterion, whose completed flag
  tells whether the letter \<^verbatim>\<open>x\<close> is among the first six characters of the line. Since the
  first six characters of such a line are the marker \<^verbatim>\<open>- [c] \<close>, this is the case exactly
  when the box holds an \<^verbatim>\<open>x\<close>; a line with a blank box yields false.
\<close>

theorem checklist_completed_flags:
  assumes "re_search criteria_pattern (section_of next_task_pattern task_md m) = Some cm"
  shows "map ac_completed (tk_acceptance_criteria (task_of_match task_md m)) =
           map (\<lambda>line. CHR ''x'' \<in> set (take 6 line)) (butlast (split_nl (group cm 1))) \<and>
         list_all (\<lambda>line. (CHR ''x'' \<in> set (take 6 line)) = (line ! 3 = CHR ''x''))
                  (butlast (split_nl (group cm 1)))"
proof -
  from criteria_block_shape [OF assms] obtain ls where
    ls: "list_all checklist_line ls" and g: "group cm 1 = unlines ls" by blast
  have "tk_acceptance_criteria (task_of_match task_md m) = criteria_of_block (group cm 1)"
    using assms by (simp add: task_of_match_def Let_def extract_criteria_def)
  also have "\<dots> = map criterion_of_line ls"
    unfolding g by (rule criteria_of_block_unlines(1) [OF ls])
  finally have "map ac_completed (tk_acceptance_criteria (task_of_match task_md m)) =
      map (\<lambda>line. CHR ''x'' \<in> set (take 6 line)) ls"
    by (simp add: criterion_of_line_def Let_def comp_def)
  moreover have "butlast (split_nl (group cm 1)) = ls"
    unfolding g by (rule criteria_of_block_unlines(2) [OF ls])
  moreover from ls have "list_all (\<lambda>line. (CHR ''x'' \<in> set (take 6 line)) = (line ! 3 = CHR ''x'')) ls"
    by (auto simp: list_all_iff checklist_line_marker)
  ultimately show ?thesis by simp
qed

lemma sample_task_criteria_match:
  "re_search criteria_pattern
     (section_of next_task_pattern sample_task_md (finditer task_pattern sample_task_md ! 0)) =
   Some \<lparr>m_start = 150, m_end = 213,
         m_groups = [(1, ''- [x] Export works'' @ [nl] @ ''- [ ] Import works'' @ [nl])]\<rparr>"
  by code_simp

theorem checklist_completed_flags_witness:
  "re_search criteria_pattern
     (section_of next_task_pattern sample_task_md (finditer task_pattern sample_task_md ! 0)) =
   Some \<lparr>m_start = 150, m_end = 213,
         m_groups = [(1, ''- [x] Export works'' @ [nl] @ ''- [ ] Import works'' @ [nl])]\<rparr> \<and>
   map ac_completed (tk_acceptance_criteria
     (task_of_match sample_task_md (finditer task_pattern sample_task_md ! 0))) = [True, False]"
proof -
  have "map (\<lambda>line. CHR ''x'' \<in> set (take 6 line))
          (butlast (split_nl (group \<lparr>m_start = 150, m_end = 213,
             m_groups = [(1, ''- [x] Export works'' @ [nl] @ ''- [ ] Import works'' @ [nl])]\<rparr> 1)))
        = [True, False]"
    by code_simp
  with checklist_completed_flags [OF sample_task_criteria_match] sample_task_criteria_match
  show ?thesis by simp
qed

lemma re_search_labeled_iff:
  "re_search (labeled label) s \<noteq> None \<longleftrightarrow> followed_by_text label s"
  unfolding re_search_def by (rule search_labeled_iff)

lemma tests_pattern_labeled: "tests_pattern = labeled ''Tests passing:''"
  by (simp add: tests_pattern_def)

lemma coverage_pattern_labeled: "coverage_pattern = labeled ''Code coverage:''"
  by (simp add: coverage_pattern_def)

lemma extract_quality_metrics_keys:
  "map fst (extract_quality_metrics task_section) =
     (if followed_by_text ''Tests passing:'' task_section then [''tests_passing''] else []) @
     (if followed_by_text ''Code coverage:'' task_section then [''code_coverage''] else [])"
proof -
  have t: "followed_by_text ''Tests passing:'' task_section
      \<longleftrightarrow> re_search tests_pattern task_section \<noteq> None"
    unfolding tests_pattern_labeled by (rule re_search_labeled_iff [symmetric])
  have c: "followed_by_text ''Code coverage:'' task_section
      \<longleftrightarrow> re_search coverage_pattern task_section \<noteq> None"
    unfolding coverage_pattern_labeled by (rule re_search_labeled_iff [symmetric])
  show ?thesis
    unfolding t c extract_quality_metrics_def Let_def
    by (cases "re_search tests_pattern task_section";
        cases "re_search coverage_pattern task_section") simp_all
qed

text \<open>
  C6, amended: the metrics map has the key \<^verbatim>\<open>tests_passing\<close> exactly when the test label is
  followed by text in the span, and the key \<^verbatim>\<open>code_coverage\<close> exactly when the coverage
  label is; its values are strings, and it is empty when neither label is followed by text.
\<close>

theorem quality_metrics_keys:
  "map fst (ct_quality_metrics (completed_task_of_match completed_md m)) =
     (if followed_by_text ''Tests passing:'' (section_of next_task_pattern completed_md m)
      then [''tests_passing''] else []) @
     (if followed_by_text ''Code coverage:'' (section_of next_task_pattern completed_md m)
      then [''code_coverage''] else [])"
  by (simp add: completed_task_of_match_def Let_def extract_quality_metrics_keys)

lemma sample_completed_eval:
  "cd_tasks (parse_completed_tasks_md sample_completed_md ''2026-01-01T00:00:00'') =
     [\<lparr>ct_id = ''task-001'', ct_title = ''Upload'', ct_status = ''COMPLETE'',
        ct_completed = ''2025-10-04'', ct_estimated = ''4 hours'', ct_actual = ''3 hours'',
        ct_sprint = ''Sprint 1'', ct_description = ''Upload images.'', ct_deliverables = [],
        ct_commit = None, ct_quality_metrics = [(''code_coverage'', ''85%'')]\<rparr>]"
  by code_simp

lemma sample_completed_has_tests_line:
  "sublist ''Tests passing:''
     (section_of next_task_pattern sample_completed_md
        (finditer completed_task_pattern sample_completed_md ! 0))"
  by code_simp

text \<open>
  C6, as stated: the key is there if and only if a line with the label exists. The task of
  the sample log has a test line, which carries no value, and no \<^verbatim>\<open>tests_passing\<close> key.
\<close>

theorem tests_line_without_value:
  "sublist ''Tests passing:''
     (section_of next_task_pattern sample_completed_md
        (finditer completed_task_pattern sample_completed_md ! 0)) \<and>
   map ct_quality_metrics
     (cd_tasks (parse_completed_tasks_md sample_completed_md ''2026-01-01T00:00:00''))
     = [[(''code_coverage'', ''85%'')]]"
  by (simp add: sample_completed_has_tests_line sample_completed_eval)

section \<open>Determinism of the extractors\<close>

text \<open>
  C8: two runs on the same documents produce the same records up to the last-updated
  fields: an extractor run at one clock value returns the record of a run at any other
  clock value with the time stamp replaced, so runs at equal clock values return equal
  records.
\<close>

theorem extractors_depend_on_clock_only_in_timestamp:
  "parse_sprints_md sprints_md t1 =
     (parse_sprints_md sprints_md t2)
       \<lparr>sd_project := (sd_project (parse_sprints_md sprints_md t2))\<lparr>pi_last_updated := t1\<rparr>\<rparr>
   \<and> parse_task_md task_md n1 =
     (parse_task_md task_md n2)
       \<lparr>td_sprint := (td_sprint (parse_task_md task_md n2))\<lparr>ss_last_updated := n1 @ ''Z''\<rparr>\<rparr>
   \<and> parse_completed_tasks_md completed_md n1 =
     (parse_completed_tasks_md completed_md n2)
       \<lparr>cd_project := (cd_project (parse_completed_tasks_md completed_md n2))
                          \<lparr>cp_last_updated := n1 @ ''Z''\<rparr>\<rparr>"
proof (intro conjI)
  show "parse_sprints_md sprints_md t1 =
     (parse_sprints_md sprints_md t2)
       \<lparr>sd_project := (sd_project (parse_sprints_md sprints_md t2))\<lparr>pi_last_updated := t1\<rparr>\<rparr>"
    by (simp add: parse_sprints_md_def Let_def)
  show "parse_task_md task_md n1 =
     (parse_task_md task_md n2)
       \<lparr>td_sprint := (td_sprint (parse_task_md task_md n2))\<lparr>ss_last_updated := n1 @ ''Z''\<rparr>\<rparr>"
    by (simp add: parse_task_md_def Let_def)
  show "parse_completed_tasks_md completed_md n1 =
     (parse_completed_tasks_md completed_md n2)
       \<lparr>cd_project := (cd_project (parse_completed_tasks_md completed_md n2))
                          \<lparr>cp_last_updated := n1 @ ''Z''\<rparr>\<rparr>"
    by (simp add: parse_completed_tasks_md_def)
qed

section \<open>Properties of the orchestrator\<close>










end
